theory Spec2Isabelle
  imports Main "HOL-Library.Char_ord" "HOL-Library.List_Lexorder" "HOL-Library.Multiset"
begin

section \<open>conflict-vetter.py: a shallow embedding\<close>

text \<open>
  The script reads three HotCRP exports, filters the declared conflicts, groups them by
  reviewer, derives a token per (reviewer, paper) with bcrypt, writes the audit file
  \<^verbatim>\<open>uidmap.csv\<close> and sends or prints one message per reviewer.

  The script has no functions of its own: each definition below embeds one block of the
  script and names the lines it comes from. Python strings are \<^typ>\<open>string\<close>; the
  parsed rows of the three CSV files are records of strings (reading and parsing the
  files is outside the model). What the interpreter or a library decides and the script
  does not (the iteration order of a \<^verbatim>\<open>set\<close>, \<^verbatim>\<open>random.shuffle\<close>,
  \<^verbatim>\<open>bcrypt.gensalt\<close>, the bcrypt digest, the success of the SMTP calls) is read from
  an environment record.
\<close>

subsection \<open>Inputs\<close>

record pcinfo_row =
  pc_email :: string
  pc_first :: string
  pc_last :: string

record author_row =
  au_paper :: string
  au_first :: string
  au_last :: string
  au_email :: string

record conflict_row =
  cf_email :: string
  cf_paper :: string
  cf_conflicttype :: string

text \<open>The command line (lines 43--58): every option is a string or absent.\<close>

record args =
  conference :: "string option"
  hashcode :: "string option"
  your_name :: "string option"
  your_email :: "string option"
  your_password :: "string option"
  form_url :: "string option"
  really_send :: "string option"

type_synonym conflict = "string \<times> string list"

record env =
  set_order :: "string list \<Rightarrow> string list"
  shuffle :: "string \<Rightarrow> conflict list \<Rightarrow> conflict list"
  gensalt :: "nat \<Rightarrow> string"
  digest :: "string \<Rightarrow> string \<Rightarrow> string"
  smtp_login_ok :: bool
  sendmail_ok :: "string \<Rightarrow> bool"

datatype error = SystemExit | TypeError | IndexError | SMTPException

subsection \<open>String operations of Python\<close>

definition nl :: string where
  "nl = [CHR 0x0A]"

text \<open>\<^verbatim>\<open>s.split(c)\<close> for a one-character separator: one more piece than separators.\<close>

fun split :: "char \<Rightarrow> string \<Rightarrow> string list" where
  "split c [] = [[]]"
| "split c (x # xs) =
     (if x = c then [] # split c xs
      else (case split c xs of [] \<Rightarrow> [[x]] | y # ys \<Rightarrow> (x # y) # ys))"

text \<open>\<^verbatim>\<open>xs[1]\<close>: IndexError on fewer than two elements.\<close>

fun item1 :: "'a list \<Rightarrow> error + 'a" where
  "item1 (x # y # ys) = Inr y"
| "item1 xs = Inl IndexError"

text \<open>\<^verbatim>\<open>s.lower()\<close> on ASCII strings.\<close>

definition lower_char :: "char \<Rightarrow> char" where
  "lower_char c =
     (if CHR ''A'' \<le> c \<and> c \<le> CHR ''Z'' then char_of (of_char c + (32::nat)) else c)"

definition lower :: "string \<Rightarrow> string" where
  "lower s = map lower_char s"

text \<open>\<^verbatim>\<open>str(n)\<close> for a natural number.\<close>

definition digit_char :: "nat \<Rightarrow> char" where
  "digit_char d = char_of (48 + d)"

function str_nat :: "nat \<Rightarrow> string" where
  "str_nat n = (if n < 10 then [digit_char n] else str_nat (n div 10) @ [digit_char (n mod 10)])"
  by pat_completeness auto
termination
  by (relation "measure id") auto

declare str_nat.simps [simp del]

text \<open>
  \<^verbatim>\<open>str(b)\<close> of a bytes object whose bytes are printable and are neither a quote nor a
  backslash (every bcrypt output is such: its alphabet is \<^verbatim>\<open>./A-Za-z0-9$\<close>):
  the bytes between \<^verbatim>\<open>b'\<close> and \<^verbatim>\<open>'\<close>.
\<close>

definition str_bytes :: "string \<Rightarrow> string" where
  "str_bytes b = ''b'' @ [CHR 0x27] @ b @ [CHR 0x27]"

subsection \<open>Lines 74--93: the loader\<close>

definition load_names :: "pcinfo_row list \<Rightarrow> (string \<rightharpoonup> string)" where
  "load_names rows =
     fold (\<lambda>row names. names(lower (pc_email row) \<mapsto> pc_first row @ '' '' @ pc_last row))
       rows Map.empty"

definition author_value :: "author_row \<Rightarrow> string" where
  "author_value row = au_first row @ '' '' @ au_last row @ '' <'' @ au_email row @ ''>''"

definition load_authors :: "author_row list \<Rightarrow> (string \<Rightarrow> string list)" where
  "load_authors rows =
     fold (\<lambda>row allAuthors.
             allAuthors(au_paper row := allAuthors (au_paper row) @ [author_value row]))
       rows (\<lambda>_. [])"

subsection \<open>Lines 100--122: the filter\<close>

definition kept_types :: "string list" where
  "kept_types = [''Pinned conflict'', ''Personal'', ''Other'']"

definition webmail :: "string list" where
  "webmail = [''outlook.com'', ''yahoo.com'', ''gmail.com'']"

text \<open>Line 108: \<^verbatim>\<open>row["email"].split("@")[1]\<close>.\<close>

definition recipient_domain :: "string \<Rightarrow> error + string" where
  "recipient_domain email = item1 (split CHR ''@'' email)"

text \<open>Line 116: \<^verbatim>\<open>name.split("<")[1].split("@")[1][:-1]\<close>.\<close>

definition author_domain :: "string \<Rightarrow> error + string" where
  "author_domain name =
     (case item1 (split CHR ''<'' name) of
        Inl e \<Rightarrow> Inl e
      | Inr s \<Rightarrow> (case item1 (split CHR ''@'' s) of
                   Inl e \<Rightarrow> Inl e
                 | Inr d \<Rightarrow> Inr (butlast d)))"

text \<open>\<^verbatim>\<open>list(map(f, xs))\<close>: the first exception ends the evaluation.\<close>

fun list_map :: "('a \<Rightarrow> error + 'b) \<Rightarrow> 'a list \<Rightarrow> error + 'b list" where
  "list_map f [] = Inr []"
| "list_map f (x # xs) =
     (case f x of
        Inl e \<Rightarrow> Inl e
      | Inr y \<Rightarrow> (case list_map f xs of Inl e \<Rightarrow> Inl e | Inr ys \<Rightarrow> Inr (y # ys)))"

text \<open>
  The body of the loop up to line 120, for one row: an exception (line 108), the row
  dropped (\<^verbatim>\<open>continue\<close>, \<open>None\<close>), or the pair appended at line 121. The
  bare \<^verbatim>\<open>except\<close> of line 119 catches the exception of the whole test of
  lines 115--117.
\<close>

definition vet_row :: "env \<Rightarrow> (string \<Rightarrow> string list) \<Rightarrow> conflict_row \<Rightarrow> error + conflict option" where
  "vet_row e allAuthors row =
     (let alist = set_order e (allAuthors (cf_paper row)) in
      case recipient_domain (cf_email row) of
        Inl err \<Rightarrow> Inl err
      | Inr rd \<Rightarrow>
          if cf_conflicttype row \<notin> set kept_types then Inr None
          else if rd \<in> set webmail then Inr (Some (cf_paper row, alist))
          else (case list_map author_domain alist of
                  Inr ds \<Rightarrow> if rd \<in> set ds then Inr None else Inr (Some (cf_paper row, alist))
                | Inl err \<Rightarrow> Inr (Some (cf_paper row, alist))))"

text \<open>
  \<^verbatim>\<open>conflicts\<close> is a \<^verbatim>\<open>defaultdict(list)\<close>: an association list in
  insertion order, a missing key reads as the empty list.
\<close>

type_synonym conflicts = "(string \<times> conflict list) list"

fun dict_append :: "string \<Rightarrow> conflict \<Rightarrow> conflicts \<Rightarrow> conflicts" where
  "dict_append k v [] = [(k, [v])]"
| "dict_append k v ((k', vs) # d) =
     (if k = k' then (k', vs @ [v]) # d else (k', vs) # dict_append k v d)"

definition dict_get :: "conflicts \<Rightarrow> string \<Rightarrow> conflict list" where
  "dict_get d k = (case map_of d k of None \<Rightarrow> [] | Some vs \<Rightarrow> vs)"

type_synonym conflict_types = "string \<Rightarrow> string \<Rightarrow> string"

definition conflicts_step ::
  "env \<Rightarrow> (string \<Rightarrow> string list) \<Rightarrow> conflict_row \<Rightarrow> conflicts \<times> conflict_types
     \<Rightarrow> error + conflicts \<times> conflict_types" where
  "conflicts_step e allAuthors row st =
     (case vet_row e allAuthors row of
        Inl err \<Rightarrow> Inl err
      | Inr None \<Rightarrow> Inr st
      | Inr (Some c) \<Rightarrow>
          Inr (dict_append (cf_email row) c (fst st),
               (snd st)(cf_email row := (snd st (cf_email row))(cf_paper row := cf_conflicttype row))))"

fun read_conflicts ::
  "env \<Rightarrow> (string \<Rightarrow> string list) \<Rightarrow> conflict_row list \<Rightarrow> conflicts \<times> conflict_types
     \<Rightarrow> error + conflicts \<times> conflict_types" where
  "read_conflicts e allAuthors [] st = Inr st"
| "read_conflicts e allAuthors (row # rows) st =
     (case conflicts_step e allAuthors row st of
        Inl err \<Rightarrow> Inl err
      | Inr st' \<Rightarrow> read_conflicts e allAuthors rows st')"

text \<open>Lines 125--126: each reviewer's list is shuffled.\<close>

definition shuffle_all :: "env \<Rightarrow> conflicts \<Rightarrow> conflicts" where
  "shuffle_all e d = map (\<lambda>(k, vs). (k, shuffle e k vs)) d"

subsection \<open>Lines 170--172: the token\<close>

text \<open>
  \<^verbatim>\<open>bcrypt\<close> is a library, not part of the script. \<^verbatim>\<open>bcrypt.gensalt()\<close> returns
  \<^verbatim>\<open>$2b$12$\<close> followed by 22 characters that encode 16 random bytes, and
  \<^verbatim>\<open>bcrypt.hashpw(password, salt)\<close> returns the salt followed by the 31 characters
  that encode the digest. The digest function and the salts come from the environment.
\<close>

definition bcrypt_alphabet :: string where
  "bcrypt_alphabet = ''./ABCDEFGHIJKLMNOPQRSTUVWXYZabcdefghijklmnopqrstuvwxyz0123456789''"

definition valid_salt :: "string \<Rightarrow> bool" where
  "valid_salt s = (length s = 29 \<and> take 7 s = ''$2b$12$'' \<and> set (drop 7 s) \<subseteq> set bcrypt_alphabet)"

definition hashpw :: "(string \<Rightarrow> string \<Rightarrow> string) \<Rightarrow> string \<Rightarrow> string \<Rightarrow> string" where
  "hashpw dg pw salt = salt @ dg pw salt"

text \<open>Line 172: \<^verbatim>\<open>str(uid)[9:21]\<close>.\<close>

definition reduced_uid :: "string \<Rightarrow> string" where
  "reduced_uid uid = take 12 (drop 9 (str_bytes uid))"

text \<open>Lines 170--172 for one (recipient, secret, paper) and the salt of this call.\<close>

definition token :: "(string \<Rightarrow> string \<Rightarrow> string) \<Rightarrow> string \<Rightarrow> string \<Rightarrow> string \<Rightarrow> string \<Rightarrow> string" where
  "token dg recipient secret paper_id salt =
     reduced_uid (hashpw dg (recipient @ secret @ paper_id) salt)"

subsection \<open>Lines 64--72 and 139--199: the notifier\<close>

text \<open>
  The effects of the script, in the order they happen. \<open>Write_row\<close> is the
  \<^verbatim>\<open>uidmap.write\<close> of line 173, \<open>Sendmail\<close> the \<^verbatim>\<open>server.sendmail\<close> of
  line 191 (sender, recipient, message) and \<open>Print_message\<close> the three
  \<^verbatim>\<open>print\<close> calls of lines 193--195 (recipient, message).
\<close>

datatype event =
    Open_uidmap
  | Write_header
  | Write_row string string string
  | Smtp_login
  | Sleep
  | Print_sending string
  | Sendmail string string string
  | Print_message string string
  | Smtp_quit
  | Close_uidmap

record globals =
  reallySendMail :: bool
  senderFirstName :: string
  senderName :: string
  sender :: string
  password :: "string option"
  secret :: string
  form :: "string option"

text \<open>Python's truth value of an optional string: \<^verbatim>\<open>None\<close> and \<^verbatim>\<open>""\<close> are false.\<close>

definition truthy :: "string option \<Rightarrow> bool" where
  "truthy x = (case x of None \<Rightarrow> False | Some s \<Rightarrow> s \<noteq> [])"

text \<open>
  Lines 60--72: the script exits without the three required options, and the
  concatenation of line 70 raises TypeError without \<^verbatim>\<open>--your-email\<close>.
\<close>

definition read_args :: "args \<Rightarrow> error + globals" where
  "read_args a =
     (if \<not> truthy (conference a) \<or> \<not> truthy (hashcode a) \<or> \<not> truthy (your_name a)
      then Inl SystemExit
      else case (hashcode a, your_name a, your_email a) of
        (Some h, Some name, Some email) \<Rightarrow>
          Inr \<lparr>reallySendMail = truthy (really_send a),
               senderFirstName = name,
               senderName = name @ '' <'' @ email @ ''>'',
               sender = email,
               password = your_password a,
               secret = h,
               form = form_url a\<rparr>
      | _ \<Rightarrow> Inl TypeError)"

text \<open>Lines 179--184: the authors of one paper, separated by commas.\<close>

fun author_list :: "nat \<Rightarrow> nat \<Rightarrow> string list \<Rightarrow> string" where
  "author_list i n [] = []"
| "author_list i n (k # l) = k @ (if Suc i \<noteq> n then '', '' else []) @ author_list (Suc i) n l"

definition relabel :: "string \<Rightarrow> string" where
  "relabel ctype =
     (if ctype = ''Pinned conflict'' then ''Auto-detected conflict (probably institutional)''
      else ctype)"

text \<open>Lines 174--185: one numbered line of the message.\<close>

definition conflict_line :: "nat \<Rightarrow> string \<Rightarrow> string \<Rightarrow> string list \<Rightarrow> string" where
  "conflict_line ind reduced ctype l =
     str_nat ind @ ''. '' @ ''(UID = '' @ reduced @ '') - '' @ relabel ctype @ '' : ''
       @ author_list 0 (length l) l @ nl"

text \<open>
  Lines 168--186: the loop over the conflicts of one recipient. \<open>n\<close> counts the calls
  of \<^verbatim>\<open>bcrypt.gensalt\<close> so far; the result is the rows written, the lines added
  to the message and the new count.
\<close>

fun conflict_lines ::
  "env \<Rightarrow> string \<Rightarrow> conflict_types \<Rightarrow> string \<Rightarrow> nat \<Rightarrow> nat \<Rightarrow> conflict list
     \<Rightarrow> event list \<times> string \<times> nat" where
  "conflict_lines e h ct recipient n ind [] = ([], [], n)"
| "conflict_lines e h ct recipient n ind ((paper_id, l) # c) =
     (let reduced = token (digest e) recipient h paper_id (gensalt e n);
          line = conflict_line ind reduced (ct recipient paper_id) l;
          (rows, text, n') = conflict_lines e h ct recipient (Suc n) (Suc ind) c
      in (Write_row recipient paper_id reduced # rows, line @ text, n'))"

text \<open>Lines 153--158: the head of the message, with the name of line 154 or the address.\<close>

definition greeting :: "(string \<rightharpoonup> string) \<Rightarrow> string \<Rightarrow> string" where
  "greeting names recipient =
     (case names (lower recipient) of Some name \<Rightarrow> name | None \<Rightarrow> recipient)"

definition preamble :: string where
  "preamble =
     ''This mail contains a list of all papers for which you have been marked'' @ nl
     @ ''as a conflict. The actual paper numbers have been encrypted.'' @ nl @ nl
     @ ''Please check each author list to verify that at least one of the authors for'' @ nl
     @ ''each paper looks like a legitimate conflict. IF NOT, please enter each one on this form:''
     @ nl @ nl @ ''  ''"

definition message :: "globals \<Rightarrow> (string \<rightharpoonup> string) \<Rightarrow> string \<Rightarrow> string \<Rightarrow> string \<Rightarrow> string" where
  "message g names recipient url text =
     ''From: '' @ senderName g @ nl @ ''Subject: Conflicts to vet: '' @ greeting names recipient
     @ nl @ nl @ ''Hi,'' @ nl @ nl @ preamble @ url @ ''.'' @ nl @ nl
     @ text
     @ nl @ nl @ ''Thanks,'' @ nl @ senderFirstName g @ nl"

text \<open>
  Lines 151--195, one recipient: the events, the new count of salts and the exception
  that ends the run, if any (TypeError at line 161 without \<^verbatim>\<open>--form-url\<close>, the
  failure of \<^verbatim>\<open>server.sendmail\<close>).
\<close>

definition recipient_block ::
  "env \<Rightarrow> globals \<Rightarrow> (string \<rightharpoonup> string) \<Rightarrow> conflicts \<Rightarrow> conflict_types \<Rightarrow> nat \<Rightarrow> string
     \<Rightarrow> event list \<times> nat \<times> error option" where
  "recipient_block e g names d ct n recipient =
     (let pause = (if reallySendMail g then [Sleep] else []) in
      case form g of
        None \<Rightarrow> (pause, n, Some TypeError)
      | Some url \<Rightarrow>
          (let (rows, text, n') = conflict_lines e (secret g) ct recipient n 1 (dict_get d recipient);
               text_msg = message g names recipient url text
           in if reallySendMail g
              then (if sendmail_ok e recipient
                    then (pause @ rows @ [Print_sending recipient, Sendmail (sender g) recipient text_msg],
                          n', None)
                    else (pause @ rows @ [Print_sending recipient], n', Some SMTPException))
              else (pause @ rows @ [Print_message recipient text_msg], n', None)))"

text \<open>Lines 150--195: the loop over the sorted recipients.\<close>

fun notify ::
  "env \<Rightarrow> globals \<Rightarrow> (string \<rightharpoonup> string) \<Rightarrow> conflicts \<Rightarrow> conflict_types \<Rightarrow> nat \<Rightarrow> string list
     \<Rightarrow> event list \<times> error option" where
  "notify e g names d ct n [] = ([], None)"
| "notify e g names d ct n (recipient # s) =
     (case recipient_block e g names d ct n recipient of
        (evs, n', Some err) \<Rightarrow> (evs, Some err)
      | (evs, n', None) \<Rightarrow>
          (case notify e g names d ct n' s of (rest, res) \<Rightarrow> (evs @ rest, res)))"

text \<open>
  The whole script: the events and the exception that ended the run (\<open>None\<close>: the
  script reached its last line).
\<close>

definition run ::
  "env \<Rightarrow> args \<Rightarrow> pcinfo_row list \<Rightarrow> author_row list \<Rightarrow> conflict_row list
     \<Rightarrow> event list \<times> error option" where
  "run e a pcinfo authors pcconflicts =
     (case read_args a of
        Inl err \<Rightarrow> ([], Some err)
      | Inr g \<Rightarrow>
          (case read_conflicts e (load_authors authors) pcconflicts ([], \<lambda>_ _. []) of
             Inl err \<Rightarrow> ([], Some err)
           | Inr (d, ct) \<Rightarrow>
               if reallySendMail g \<and> \<not> smtp_login_ok e
               then ([Open_uidmap, Write_header], Some SMTPException)
               else (case notify e g (load_names pcinfo) (shuffle_all e d) ct 0
                            (sort (map fst (shuffle_all e d))) of
                       (evs, Some err) \<Rightarrow>
                         ([Open_uidmap, Write_header]
                            @ (if reallySendMail g then [Smtp_login] else []) @ evs, Some err)
                     | (evs, None) \<Rightarrow>
                         ([Open_uidmap, Write_header]
                            @ (if reallySendMail g then [Smtp_login] else []) @ evs
                            @ (if reallySendMail g then [Smtp_quit] else []) @ [Close_uidmap],
                          None))))"

subsection \<open>The audit file\<close>

text \<open>The text that an event writes to \<^verbatim>\<open>uidmap.csv\<close> (lines 140 and 173).\<close>

fun written :: "event \<Rightarrow> string" where
  "written Write_header = ''email,paper,uid'' @ nl"
| "written (Write_row email paper uid) = email @ '','' @ paper @ '','' @ uid @ nl"
| "written _ = []"

text \<open>
  The content of \<^verbatim>\<open>uidmap.csv\<close> after the events, from its content before
  (\<open>None\<close>: no such file). Opening with mode \<^verbatim>\<open>"w"\<close> (line 139) creates the
  file or empties it.
\<close>

fun uidmap_after :: "string option \<Rightarrow> event list \<Rightarrow> string option" where
  "uidmap_after f [] = f"
| "uidmap_after f (Open_uidmap # evs) = uidmap_after (Some []) evs"
| "uidmap_after f (ev # evs) = uidmap_after (map_option (\<lambda>text. text @ written ev) f) evs"

text \<open>Views of a trace: the rows of the audit file and the messages delivered.\<close>

fun row_of :: "event \<Rightarrow> (string \<times> string \<times> string) option" where
  "row_of (Write_row email paper uid) = Some (email, paper, uid)"
| "row_of _ = None"

fun delivered :: "event \<Rightarrow> (string \<times> string) option" where
  "delivered (Sendmail from recipient text_msg) = Some (recipient, text_msg)"
| "delivered (Print_message recipient text_msg) = Some (recipient, text_msg)"
| "delivered _ = None"

fun transmitted :: "event \<Rightarrow> bool" where
  "transmitted (Sendmail from recipient text_msg) = True"
| "transmitted Smtp_login = True"
| "transmitted _ = False"

text \<open>Lines 106 and 121: the pair that a surviving row appends.\<close>

definition attached :: "env \<Rightarrow> (string \<Rightarrow> string list) \<Rightarrow> conflict_row \<Rightarrow> conflict" where
  "attached e allAuthors row = (cf_paper row, set_order e (allAuthors (cf_paper row)))"

subsection \<open>Example inputs\<close>

definition salt_a :: string where "salt_a = ''$2b$12$abcdefghijklmnopqrstu.''"
definition salt_b :: string where "salt_b = ''$2b$12$abcdefghijklMNOPQRSTUO''"
definition salt_c :: string where "salt_c = ''$2b$12$ABCDEFGHIJKLmnopqrstuO''"

definition demo_digest :: "string \<Rightarrow> string \<Rightarrow> string" where
  "demo_digest pw salt = replicate 31 CHR ''x''"

definition demo_env :: env where
  "demo_env = \<lparr>set_order = remdups, shuffle = (\<lambda>k. rev),
     gensalt = (\<lambda>n. if n = 0 then salt_a else if n = 1 then salt_b else salt_c),
     digest = demo_digest, smtp_login_ok = True, sendmail_ok = (\<lambda>r. True)\<rparr>"

definition c2_authors :: "author_row list" where
  "c2_authors = [\<lparr>au_paper = ''12'', au_first = ''Bob'', au_last = ''B'', au_email = ''b@univ.edu''\<rparr>,
                 \<lparr>au_paper = ''12'', au_first = ''Eve'', au_last = ''E'', au_email = ''eve''\<rparr>]"
definition univ_authors :: "author_row list" where
  "univ_authors = [\<lparr>au_paper = ''12'', au_first = ''Bob'', au_last = ''B'', au_email = ''b@univ.edu''\<rparr>]"

definition c2_row :: conflict_row where
  "c2_row = \<lparr>cf_email = ''a@univ.edu'', cf_paper = ''12'', cf_conflicttype = ''Personal''\<rparr>"

definition c4_authors :: "author_row list" where
  "c4_authors = [\<lparr>au_paper = ''7'', au_first = ''Mallory'', au_last = ''M'', au_email = ''mallory''\<rparr>,
                 \<lparr>au_paper = ''7'', au_first = ''Carol'', au_last = ''C'', au_email = ''c@inst.org''\<rparr>]"

definition c4_row :: conflict_row where
  "c4_row = \<lparr>cf_email = ''r@inst.org'', cf_paper = ''7'', cf_conflicttype = ''Other''\<rparr>"

definition c9_pcinfo :: "pcinfo_row list" where
  "c9_pcinfo = [\<lparr>pc_email = ''Alice@Univ.EDU'', pc_first = ''Alice'', pc_last = ''Liddell''\<rparr>]"

subsection \<open>Views used in the statements\<close>

text \<open>
  A row survives the filter when line 121 appends its pair. The rows of the audit file
  and the messages delivered are read off a trace in the order of the events.
\<close>

definition survives :: "env \<Rightarrow> (string \<Rightarrow> string list) \<Rightarrow> conflict_row \<Rightarrow> bool" where
  "survives e allAuthors row = (vet_row e allAuthors row = Inr (Some (attached e allAuthors row)))"

definition audit_rows :: "event list \<Rightarrow> (string \<times> string \<times> string) list" where
  "audit_rows tr = List.map_filter row_of tr"

definition deliveries :: "event list \<Rightarrow> (string \<times> string) list" where
  "deliveries tr = List.map_filter delivered tr"

definition token_rows :: "env \<Rightarrow> string \<Rightarrow> string \<Rightarrow> nat \<Rightarrow> conflict list \<Rightarrow> (string \<times> string \<times> string) list" where
  "token_rows e h recipient n c =
     map (\<lambda>(i, paper_id, l). (recipient, paper_id, token (digest e) recipient h paper_id (gensalt e i)))
       (enumerate n c)"

definition block_pause :: "globals \<Rightarrow> event list" where
  "block_pause g = (if reallySendMail g then [Sleep] else [])"

definition block_message :: "env \<Rightarrow> globals \<Rightarrow> (string \<rightharpoonup> string) \<Rightarrow> conflicts \<Rightarrow> conflict_types \<Rightarrow> nat \<Rightarrow> string \<Rightarrow> string \<Rightarrow> string" where
  "block_message e g names d ct n r url =
     message g names r url (fst (snd (conflict_lines e (secret g) ct r n 1 (dict_get d r))))"

definition plain :: "event \<Rightarrow> bool" where
  "plain ev = (ev \<noteq> Open_uidmap \<and> ev \<noteq> Write_header)"

definition row_text :: "string \<times> string \<times> string \<Rightarrow> string" where
  "row_text row = fst row @ '','' @ fst (snd row) @ '','' @ snd (snd row) @ nl"

definition login_events :: "globals \<Rightarrow> event list" where
  "login_events g = (if reallySendMail g then [Smtp_login] else [])"

definition closing_events :: "globals \<Rightarrow> error option \<Rightarrow> event list" where
  "closing_events g res =
     (case res of
        None \<Rightarrow> (if reallySendMail g then [Smtp_quit] else []) @ [Close_uidmap]
      | Some err \<Rightarrow> [])"

subsection \<open>An example run\<close>

definition demo_args :: args where
  "demo_args = \<lparr>conference = Some ''asplos21'', hashcode = Some ''hellokitty'',
     your_name = Some ''Emery'', your_email = Some ''emery@gmail.com'',
     your_password = None, form_url = Some ''https://forms.gle/someform'', really_send = None\<rparr>"

definition demo_globals :: globals where
  "demo_globals = \<lparr>reallySendMail = False, senderFirstName = ''Emery'',
     senderName = ''Emery <emery@gmail.com>'', sender = ''emery@gmail.com'', password = None,
     secret = ''hellokitty'', form = Some ''https://forms.gle/someform''\<rparr>"

definition demo_authors :: "author_row list" where
  "demo_authors = [\<lparr>au_paper = ''12'', au_first = ''Bob'', au_last = ''B'', au_email = ''b@univ.edu''\<rparr>,
                   \<lparr>au_paper = ''7'', au_first = ''Carol'', au_last = ''C'', au_email = ''c@inst.org''\<rparr>]"

definition row_a12 :: conflict_row where
  "row_a12 = \<lparr>cf_email = ''a@gmail.com'', cf_paper = ''12'', cf_conflicttype = ''Personal''\<rparr>"

definition row_z12 :: conflict_row where
  "row_z12 = \<lparr>cf_email = ''z@univ.edu'', cf_paper = ''12'', cf_conflicttype = ''Other''\<rparr>"

definition row_a7 :: conflict_row where
  "row_a7 = \<lparr>cf_email = ''a@gmail.com'', cf_paper = ''7'', cf_conflicttype = ''Pinned conflict''\<rparr>"

definition row_q12 :: conflict_row where
  "row_q12 = \<lparr>cf_email = ''q@inst.org'', cf_paper = ''12'', cf_conflicttype = ''Collaborator''\<rparr>"

definition demo_conflicts :: "conflict_row list" where
  "demo_conflicts = [row_a12, row_z12, row_a7, row_q12]"

definition demo_d :: conflicts where
  "demo_d = [(''a@gmail.com'', [(''12'', [''Bob B <b@univ.edu>'']), (''7'', [''Carol C <c@inst.org>''])])]"

definition demo_ct :: conflict_types where
  "demo_ct = (\<lambda>_ _. [])(''a@gmail.com'' := ((\<lambda>_. [])(''12'' := ''Personal''))(''7'' := ''Pinned conflict''))"

definition demo_message :: string where
  "demo_message = message demo_globals Map.empty ''a@gmail.com'' ''https://forms.gle/someform''
     (conflict_line 1 ''abcdefghijkl'' ''Pinned conflict'' [''Carol C <c@inst.org>'']
      @ conflict_line 2 ''abcdefghijkl'' ''Personal'' [''Bob B <b@univ.edu>''])"

definition demo_trace :: "event list" where
  "demo_trace = [Open_uidmap, Write_header,
     Write_row ''a@gmail.com'' ''7'' ''abcdefghijkl'',
     Write_row ''a@gmail.com'' ''12'' ''abcdefghijkl'',
     Print_message ''a@gmail.com'' demo_message,
     Close_uidmap]"

subsection \<open>A run with a duplicated conflict row, and an older audit file\<close>

definition row_a12b :: conflict_row where
  "row_a12b = \<lparr>cf_email = ''a@gmail.com'', cf_paper = ''12'', cf_conflicttype = ''Other''\<rparr>"

definition dup_conflicts :: "conflict_row list" where
  "dup_conflicts = [row_a12, row_a12b]"

definition dup_env :: env where
  "dup_env = \<lparr>set_order = remdups, shuffle = (\<lambda>k. rev),
     gensalt = (\<lambda>n. if n = 0 then salt_a else salt_c),
     digest = demo_digest, smtp_login_ok = True, sendmail_ok = (\<lambda>r. True)\<rparr>"

definition dup_d :: conflicts where
  "dup_d = [(''a@gmail.com'', [(''12'', [''Bob B <b@univ.edu>'']), (''12'', [''Bob B <b@univ.edu>''])])]"

definition dup_ct :: conflict_types where
  "dup_ct = (\<lambda>_ _. [])(''a@gmail.com'' := (\<lambda>_. [])(''12'' := ''Other''))"

definition dup_message :: string where
  "dup_message = message demo_globals Map.empty ''a@gmail.com'' ''https://forms.gle/someform''
     (conflict_line 1 ''abcdefghijkl'' ''Other'' [''Bob B <b@univ.edu>'']
      @ conflict_line 2 ''ABCDEFGHIJKL'' ''Other'' [''Bob B <b@univ.edu>''])"

definition dup_trace :: "event list" where
  "dup_trace = [Open_uidmap, Write_header,
     Write_row ''a@gmail.com'' ''12'' ''abcdefghijkl'',
     Write_row ''a@gmail.com'' ''12'' ''ABCDEFGHIJKL'',
     Print_message ''a@gmail.com'' dup_message,
     Close_uidmap]"

definition old_uidmap :: string where
  "old_uidmap = ''email,paper,uid'' @ nl @ ''r@x.org,3,QRSTUVWXYZab'' @ nl"

subsection \<open>A run with two reviewers\<close>

text \<open>
  Two reviewers with surviving conflicts, \<^verbatim>\<open>alice@gmail.com\<close> (papers 12 and 7) and
  \<^verbatim>\<open>Bob@gmail.com\<close> (paper 7, which has two authors), and a third whose conflict is
  suppressed. The messages of the run are written out in full.
\<close>

definition salt_d :: string where "salt_d = ''$2b$12$0123456789abmnopqrstuO''"

definition wide_env :: env where
  "wide_env = \<lparr>set_order = remdups, shuffle = (\<lambda>k. rev),
     gensalt = (\<lambda>n. if n = 0 then salt_a else if n = 1 then salt_c else salt_d),
     digest = demo_digest, smtp_login_ok = True, sendmail_ok = (\<lambda>r. True)\<rparr>"

definition wide_authors :: "author_row list" where
  "wide_authors = [\<lparr>au_paper = ''12'', au_first = ''Bob'', au_last = ''B'', au_email = ''b@univ.edu''\<rparr>,
                   \<lparr>au_paper = ''7'', au_first = ''Carol'', au_last = ''C'', au_email = ''c@inst.org''\<rparr>,
                   \<lparr>au_paper = ''7'', au_first = ''Dan'', au_last = ''D'', au_email = ''d@inst.org''\<rparr>]"

definition row_al12 :: conflict_row where
  "row_al12 = \<lparr>cf_email = ''alice@gmail.com'', cf_paper = ''12'', cf_conflicttype = ''Personal''\<rparr>"

definition row_al7 :: conflict_row where
  "row_al7 = \<lparr>cf_email = ''alice@gmail.com'', cf_paper = ''7'', cf_conflicttype = ''Other''\<rparr>"

definition row_z7 :: conflict_row where
  "row_z7 = \<lparr>cf_email = ''z@inst.org'', cf_paper = ''7'', cf_conflicttype = ''Other''\<rparr>"

definition row_B7 :: conflict_row where
  "row_B7 = \<lparr>cf_email = ''Bob@gmail.com'', cf_paper = ''7'', cf_conflicttype = ''Pinned conflict''\<rparr>"

definition wide_conflicts :: "conflict_row list" where
  "wide_conflicts = [row_al12, row_al7, row_z7, row_B7]"

definition wide_d :: conflicts where
  "wide_d = [(''alice@gmail.com'', [(''12'', [''Bob B <b@univ.edu>'']),
                                    (''7'', [''Carol C <c@inst.org>'', ''Dan D <d@inst.org>''])]),
             (''Bob@gmail.com'', [(''7'', [''Carol C <c@inst.org>'', ''Dan D <d@inst.org>''])])]"

definition wide_ct :: conflict_types where
  "wide_ct = ((\<lambda>_ _. [])(''alice@gmail.com'' := ((\<lambda>_. [])(''12'' := ''Personal''))(''7'' := ''Other'')))
               (''Bob@gmail.com'' := (\<lambda>_. [])(''7'' := ''Pinned conflict''))"

definition demo_notice :: string where
  "demo_notice =
     ''Hi,'' @ nl @ nl
     @ ''This mail contains a list of all papers for which you have been marked'' @ nl
     @ ''as a conflict. The actual paper numbers have been encrypted.'' @ nl @ nl
     @ ''Please check each author list to verify that at least one of the authors for'' @ nl
     @ ''each paper looks like a legitimate conflict. IF NOT, please enter each one on this form:''
     @ nl @ nl
     @ ''  https://forms.gle/someform.'' @ nl @ nl"

definition wide_message_bob :: string where
  "wide_message_bob =
     ''From: Emery <emery@gmail.com>'' @ nl
     @ ''Subject: Conflicts to vet: Bob@gmail.com'' @ nl @ nl
     @ demo_notice
     @ ''1. (UID = abcdefghijkl) - Auto-detected conflict (probably institutional) : ''
     @ ''Carol C <c@inst.org>, Dan D <d@inst.org>'' @ nl
     @ nl @ nl @ ''Thanks,'' @ nl @ ''Emery'' @ nl"

definition wide_message_alice :: string where
  "wide_message_alice =
     ''From: Emery <emery@gmail.com>'' @ nl
     @ ''Subject: Conflicts to vet: alice@gmail.com'' @ nl @ nl
     @ demo_notice
     @ ''1. (UID = ABCDEFGHIJKL) - Other : Carol C <c@inst.org>, Dan D <d@inst.org>'' @ nl
     @ ''2. (UID = 0123456789ab) - Personal : Bob B <b@univ.edu>'' @ nl
     @ nl @ nl @ ''Thanks,'' @ nl @ ''Emery'' @ nl"

definition wide_trace :: "event list" where
  "wide_trace = [Open_uidmap, Write_header,
     Write_row ''Bob@gmail.com'' ''7'' ''abcdefghijkl'',
     Print_message ''Bob@gmail.com'' wide_message_bob,
     Write_row ''alice@gmail.com'' ''7'' ''ABCDEFGHIJKL'',
     Write_row ''alice@gmail.com'' ''12'' ''0123456789ab'',
     Print_message ''alice@gmail.com'' wide_message_alice,
     Close_uidmap]"

subsection \<open>A run and its re-run\<close>









section \<open>Properties\<close>

subsection \<open>Auxiliary lemmas\<close>

lemma list_map_all_Inr:
  "\<forall>x \<in> set xs. \<exists>y. f x = Inr y \<Longrightarrow> list_map f xs = Inr (map (\<lambda>x. projr (f x)) xs)"
  by (induction xs) auto

lemma list_map_some_Inl:
  "x \<in> set xs \<Longrightarrow> f x = Inl err \<Longrightarrow> \<exists>err'. list_map f xs = Inl err'"
  by (induction xs) (auto split: sum.splits)

lemma list_map_Inr_iff:
  "list_map f xs = Inr ys \<longleftrightarrow> (\<forall>x \<in> set xs. \<exists>y. f x = Inr y) \<and> ys = map (\<lambda>x. projr (f x)) xs"
proof
  assume r: "list_map f xs = Inr ys"
  have "\<forall>x \<in> set xs. \<exists>y. f x = Inr y"
  proof
    fix x assume "x \<in> set xs"
    show "\<exists>y. f x = Inr y"
    proof (cases "f x")
      case (Inl err)
      with \<open>x \<in> set xs\<close> r list_map_some_Inl [of x xs f err] show ?thesis by auto
    next
      case (Inr y)
      then show ?thesis by blast
    qed
  qed
  with r list_map_all_Inr [of xs f] show "(\<forall>x \<in> set xs. \<exists>y. f x = Inr y) \<and> ys = map (\<lambda>x. projr (f x)) xs"
    by auto
next
  assume "(\<forall>x \<in> set xs. \<exists>y. f x = Inr y) \<and> ys = map (\<lambda>x. projr (f x)) xs"
  then show "list_map f xs = Inr ys" by (simp add: list_map_all_Inr)
qed

lemma fold_names:
  "fold (\<lambda>row names. names(lower (pc_email row) \<mapsto> pc_first row @ '' '' @ pc_last row)) rows m k =
     (case rev (filter (\<lambda>row. lower (pc_email row) = k) rows) of
        [] \<Rightarrow> m k
      | r # rs \<Rightarrow> Some (pc_first r @ '' '' @ pc_last r))"
proof (induction rows arbitrary: m)
  case Nil
  show ?case by simp
next
  case (Cons row rows)
  show ?case
    apply (simp only: fold_Cons o_apply Cons.IH)
    apply (auto split: list.splits)
    done
qed

lemma valid_salts: "valid_salt salt_a" "valid_salt salt_b" "valid_salt salt_c"
  by (simp_all add: valid_salt_def salt_a_def salt_b_def salt_c_def bcrypt_alphabet_def)

lemma demo_salts:
  "gensalt demo_env 0 = salt_a" "gensalt demo_env (Suc 0) = salt_b" "gensalt demo_env (Suc (Suc 0)) = salt_c"
  by (simp_all add: demo_env_def)

lemma reduced_uid_hashpw:
  "19 \<le> length salt \<Longrightarrow> reduced_uid (hashpw dg pw salt) = take 12 (drop 7 salt)"
  by (simp add: reduced_uid_def hashpw_def str_bytes_def)

subsection \<open>The token (C6)\<close>

text \<open>
  C6. Characters 9 to 20 of \<^verbatim>\<open>str(uid)\<close> lie inside the salt: they are the first
  twelve of its 22 encoded characters (characters 7 to 18 of the salt string). For a fixed
  salt the token is therefore the same for every recipient, paper, secret and digest
  function.
\<close>

theorem token_inside_salt:
  assumes "valid_salt salt"
  shows "token dg recipient h paper_id salt = take 12 (drop 7 salt)
       \<and> length (token dg recipient h paper_id salt) = 12
       \<and> token dg recipient h paper_id salt = token dg' recipient' h' paper_id' salt"
  using assms by (simp add: token_def reduced_uid_hashpw valid_salt_def)

theorem token_inside_salt_witness:
  "valid_salt salt_a
   \<and> token demo_digest ''a@univ.edu'' ''hellokitty'' ''12'' salt_a = take 12 (drop 7 salt_a)
   \<and> length (token demo_digest ''a@univ.edu'' ''hellokitty'' ''12'' salt_a) = 12
   \<and> token demo_digest ''a@univ.edu'' ''hellokitty'' ''12'' salt_a
       = token demo_digest ''z@gmail.com'' ''other'' ''7'' salt_a"
  using valid_salts(1)
    token_inside_salt [OF valid_salts(1), where dg = demo_digest and recipient = "''a@univ.edu''"
      and h = "''hellokitty''" and paper_id = "''12''" and dg' = demo_digest
      and recipient' = "''z@gmail.com''" and h' = "''other''" and paper_id' = "''7''"]
  by blast

subsection \<open>The decision for one row (C2)\<close>

text \<open>
  C2, amended. For a row of a kept type whose reviewer address has a domain: the row is
  kept if the domain is in the webmail list; otherwise it is suppressed if every author
  string of the paper yields a domain and one of these domains is the reviewer's;
  otherwise it is kept.
\<close>

theorem vet_row_decision:
  assumes "recipient_domain (cf_email row) = Inr rd" and "cf_conflicttype row \<in> set kept_types"
  shows "vet_row e allAuthors row =
     Inr (if rd \<in> set webmail then Some (attached e allAuthors row)
          else if (\<forall>a \<in> set (snd (attached e allAuthors row)). \<exists>d. author_domain a = Inr d)
                  \<and> (\<exists>a \<in> set (snd (attached e allAuthors row)). author_domain a = Inr rd)
          then None else Some (attached e allAuthors row))"
proof (cases "list_map author_domain (set_order e (allAuthors (cf_paper row)))")
  case (Inl err)
  then have "\<not> (\<forall>a \<in> set (set_order e (allAuthors (cf_paper row))). \<exists>d. author_domain a = Inr d)"
    using list_map_all_Inr [of "set_order e (allAuthors (cf_paper row))" author_domain] by auto
  with Inl assms show ?thesis
    by (auto simp add: vet_row_def attached_def)
next
  case (Inr ds)
  then have all: "\<forall>a \<in> set (set_order e (allAuthors (cf_paper row))). \<exists>d. author_domain a = Inr d"
    and ds: "ds = map (\<lambda>x. projr (author_domain x)) (set_order e (allAuthors (cf_paper row)))"
    by (simp_all add: list_map_Inr_iff)
  have "rd \<in> set ds \<longleftrightarrow> (\<exists>a \<in> set (set_order e (allAuthors (cf_paper row))). author_domain a = Inr rd)"
    using all unfolding ds by force
  with Inr all assms show ?thesis
    by (simp add: vet_row_def attached_def)
qed

lemma c2_eval:
  "load_authors c2_authors ''12'' = [''Bob B <b@univ.edu>'', ''Eve E <eve>'']"
  by (simp add: load_authors_def c2_authors_def author_value_def)

lemma dom_univ: "recipient_domain ''a@univ.edu'' = Inr ''univ.edu''"
  by (simp add: recipient_domain_def)

lemma ad_bob: "author_domain ''Bob B <b@univ.edu>'' = Inr ''univ.edu''"
  by (simp add: author_domain_def)

lemma ad_eve: "author_domain ''Eve E <eve>'' = Inl IndexError"
  by (simp add: author_domain_def)

lemma univ_eval:
  "load_authors univ_authors ''12'' = [''Bob B <b@univ.edu>'']"
  by (simp add: load_authors_def univ_authors_def author_value_def)

theorem vet_row_decision_witness:
  "recipient_domain (cf_email c2_row) = Inr ''univ.edu''
   \<and> cf_conflicttype c2_row \<in> set kept_types
   \<and> vet_row demo_env (load_authors univ_authors) c2_row = Inr None"
  using vet_row_decision [of c2_row "''univ.edu''" demo_env "load_authors univ_authors"]
  by (simp add: c2_row_def univ_eval dom_univ ad_bob attached_def demo_env_def webmail_def
      kept_types_def)

text \<open>
  C2 as stated fails: the reviewer's domain \<^verbatim>\<open>univ.edu\<close> is not a webmail domain
  and is the domain of the author Bob, yet the row is kept, because the address of the
  other author has no \<^verbatim>\<open>@\<close>.
\<close>

theorem suppression_counterexample:
  "recipient_domain (cf_email c2_row) = Inr ''univ.edu''
   \<and> ''univ.edu'' \<notin> set webmail
   \<and> cf_conflicttype c2_row \<in> set kept_types
   \<and> ''Bob B <b@univ.edu>'' \<in> set (load_authors c2_authors (cf_paper c2_row))
   \<and> author_domain ''Bob B <b@univ.edu>'' = Inr ''univ.edu''
   \<and> vet_row demo_env (load_authors c2_authors) c2_row
       = Inr (Some (''12'', [''Bob B <b@univ.edu>'', ''Eve E <eve>'']))"
  by (simp add: c2_row_def c2_eval dom_univ ad_bob ad_eve vet_row_def demo_env_def webmail_def kept_types_def)

subsection \<open>A malformed author string (C4)\<close>

text \<open>
  C4, amended. For a row of a kept type whose reviewer address has a domain: when the
  extraction of the domain fails for any one author string of the paper, the whole test
  of lines 115--117 counts as no match and the row is kept, whatever the other authors
  of the paper are.
\<close>

theorem malformed_author_keeps:
  assumes "recipient_domain (cf_email row) = Inr rd"
    and "cf_conflicttype row \<in> set kept_types"
    and "a \<in> set (snd (attached e allAuthors row))"
    and "author_domain a = Inl err"
  shows "vet_row e allAuthors row = Inr (Some (attached e allAuthors row))"
proof -
  obtain err' where "list_map author_domain (set_order e (allAuthors (cf_paper row))) = Inl err'"
    using list_map_some_Inl [of a "set_order e (allAuthors (cf_paper row))" author_domain err] assms(3,4)
    by (auto simp add: attached_def)
  with assms(1,2) show ?thesis
    by (simp add: vet_row_def attached_def Let_def)
qed

lemma c4_eval:
  "load_authors c4_authors ''7'' = [''Mallory M <mallory>'', ''Carol C <c@inst.org>'']"
  by (simp add: load_authors_def c4_authors_def author_value_def)

lemma dom_inst: "recipient_domain ''r@inst.org'' = Inr ''inst.org''"
  by (simp add: recipient_domain_def)

lemma ad_mallory: "author_domain ''Mallory M <mallory>'' = Inl IndexError"
  by (simp add: author_domain_def)

lemma ad_carol: "author_domain ''Carol C <c@inst.org>'' = Inr ''inst.org''"
  by (simp add: author_domain_def)

theorem malformed_author_keeps_witness:
  "recipient_domain (cf_email c4_row) = Inr ''inst.org''
   \<and> cf_conflicttype c4_row \<in> set kept_types
   \<and> ''Mallory M <mallory>'' \<in> set (snd (attached demo_env (load_authors c4_authors) c4_row))
   \<and> author_domain ''Mallory M <mallory>'' = Inl IndexError
   \<and> vet_row demo_env (load_authors c4_authors) c4_row
       = Inr (Some (attached demo_env (load_authors c4_authors) c4_row))"
proof -
  have 1: "recipient_domain (cf_email c4_row) = Inr ''inst.org''"
    by (simp add: c4_row_def dom_inst)
  have 2: "cf_conflicttype c4_row \<in> set kept_types"
    by (simp add: c4_row_def kept_types_def)
  have 3: "''Mallory M <mallory>'' \<in> set (snd (attached demo_env (load_authors c4_authors) c4_row))"
    by (simp add: attached_def c4_row_def c4_eval demo_env_def)
  show ?thesis
    using 1 2 3 ad_mallory malformed_author_keeps [OF 1 2 3 ad_mallory] by blast
qed

text \<open>
  C4 as stated fails: the paper has one malformed author string and one well-formed
  author with the reviewer's domain (not a webmail domain), and the row is not
  suppressed.
\<close>

theorem malformed_author_counterexample:
  "recipient_domain (cf_email c4_row) = Inr ''inst.org''
   \<and> ''inst.org'' \<notin> set webmail
   \<and> cf_conflicttype c4_row \<in> set kept_types
   \<and> load_authors c4_authors (cf_paper c4_row) = [''Mallory M <mallory>'', ''Carol C <c@inst.org>'']
   \<and> author_domain ''Mallory M <mallory>'' = Inl IndexError
   \<and> author_domain ''Carol C <c@inst.org>'' = Inr ''inst.org''
   \<and> vet_row demo_env (load_authors c4_authors) c4_row \<noteq> Inr None"
  by (simp add: c4_row_def c4_eval dom_inst ad_mallory ad_carol vet_row_def demo_env_def
      webmail_def kept_types_def)

subsection \<open>The name in the subject (C9)\<close>

text \<open>
  C9, amended. Both sides of the join are lower-cased (lines 78 and 154): the subject
  shows the name of the last reviewer-info row whose lower-cased address equals the
  lower-cased recipient, and the recipient's address as it is when there is no such row.
\<close>

theorem greeting_lookup:
  "greeting (load_names pcinfo) recipient =
     (case rev (filter (\<lambda>row. lower (pc_email row) = lower recipient) pcinfo) of
        [] \<Rightarrow> recipient
      | row # rows \<Rightarrow> pc_first row @ '' '' @ pc_last row)"
  unfolding greeting_def load_names_def fold_names
  by (simp split: list.splits)

lemma lower_alice:
  "lower ''Alice@Univ.EDU'' = ''alice@univ.edu''" "lower ''alice@univ.edu'' = ''alice@univ.edu''"
  by code_simp+

text \<open>
  C9 as stated fails: the two exports differ in case and the name is found all the same.
\<close>

theorem case_mismatch_counterexample:
  "pc_email (hd c9_pcinfo) = ''Alice@Univ.EDU''
   \<and> ''Alice@Univ.EDU'' \<noteq> ''alice@univ.edu''
   \<and> greeting (load_names c9_pcinfo) ''alice@univ.edu'' = ''Alice Liddell''
   \<and> greeting (load_names c9_pcinfo) ''alice@univ.edu'' \<noteq> ''alice@univ.edu''"
  by (simp add: c9_pcinfo_def greeting_def load_names_def lower_alice)

subsection \<open>The dictionary of conflicts and the filter loop\<close>

lemma dict_get_append:
  "dict_get (dict_append k v d) k' = (if k' = k then dict_get d k @ [v] else dict_get d k')"
  by (induction d) (auto simp add: dict_get_def)

lemma keys_dict_append:
  "map fst (dict_append k v d) = (if k \<in> set (map fst d) then map fst d else map fst d @ [k])"
proof (induction d)
  case Nil
  show ?case by simp
next
  case (Cons kv d)
  obtain k' vs where kv: "kv = (k', vs)" by (cases kv)
  show ?case
    using Cons.IH by (simp add: kv)
qed

lemma set_keys_dict_append:
  "set (map fst (dict_append k v d)) = insert k (set (map fst d))"
  by (auto simp add: keys_dict_append)

lemma distinct_dict_append:
  "distinct (map fst d) \<Longrightarrow> distinct (map fst (dict_append k v d))"
  by (simp add: keys_dict_append)

lemma vet_row_Some:
  "vet_row e allAuthors row = Inr (Some c) \<Longrightarrow>
     c = attached e allAuthors row \<and> cf_conflicttype row \<in> set kept_types"
  by (auto simp add: vet_row_def attached_def Let_def split: sum.splits if_splits)

lemma conflicts_step_cases:
  assumes "conflicts_step e allAuthors row st = Inr st'"
  shows "(\<not> survives e allAuthors row \<and> st' = st)
       \<or> (survives e allAuthors row \<and> cf_conflicttype row \<in> set kept_types
          \<and> st' = (dict_append (cf_email row) (attached e allAuthors row) (fst st),
                   (snd st)(cf_email row := (snd st (cf_email row))(cf_paper row := cf_conflicttype row))))"
proof (cases "vet_row e allAuthors row")
  case (Inl err)
  with assms show ?thesis by (simp add: conflicts_step_def)
next
  case (Inr v)
  show ?thesis
  proof (cases v)
    case None
    with Inr assms show ?thesis by (simp add: conflicts_step_def survives_def)
  next
    case (Some c)
    with Inr vet_row_Some [of e allAuthors row c]
    have "c = attached e allAuthors row" and "cf_conflicttype row \<in> set kept_types"
      by simp_all
    with Inr Some assms show ?thesis by (simp add: conflicts_step_def survives_def)
  qed
qed

lemma conflicts_step_get:
  assumes "conflicts_step e allAuthors row st = Inr st'"
  shows "dict_get (fst st') k =
           dict_get (fst st) k @ map (attached e allAuthors)
             (filter (\<lambda>row. cf_email row = k \<and> survives e allAuthors row) [row])"
  using conflicts_step_cases [OF assms]
  by (auto simp add: dict_get_append)

lemma read_conflicts_get:
  "read_conflicts e allAuthors rows st = Inr st' \<Longrightarrow>
     dict_get (fst st') k =
       dict_get (fst st) k @ map (attached e allAuthors)
         (filter (\<lambda>row. cf_email row = k \<and> survives e allAuthors row) rows)"
proof (induction rows arbitrary: st)
  case Nil
  then show ?case by simp
next
  case (Cons row rows)
  from Cons.prems obtain st1 where 1: "conflicts_step e allAuthors row st = Inr st1"
    and 2: "read_conflicts e allAuthors rows st1 = Inr st'"
    by (auto split: sum.splits)
  show ?case
    using Cons.IH [OF 2] conflicts_step_get [OF 1, of k] by simp
qed

lemma conflicts_step_keys:
  assumes "conflicts_step e allAuthors row st = Inr st'"
  shows "set (map fst (fst st')) = set (map fst (fst st)) \<union> cf_email ` {r \<in> set [row]. survives e allAuthors r}"
    and "distinct (map fst (fst st)) \<Longrightarrow> distinct (map fst (fst st'))"
  using conflicts_step_cases [OF assms]
  by (auto simp add: set_keys_dict_append distinct_dict_append simp del: set_map)

lemma read_conflicts_keys:
  "read_conflicts e allAuthors rows st = Inr st' \<Longrightarrow>
     set (map fst (fst st')) = set (map fst (fst st)) \<union> cf_email ` {r \<in> set rows. survives e allAuthors r}
     \<and> (distinct (map fst (fst st)) \<longrightarrow> distinct (map fst (fst st')))"
proof (induction rows arbitrary: st)
  case Nil
  then show ?case by simp
next
  case (Cons row rows)
  from Cons.prems obtain st1 where 1: "conflicts_step e allAuthors row st = Inr st1"
    and 2: "read_conflicts e allAuthors rows st1 = Inr st'"
    by (auto split: sum.splits)
  have "cf_email ` {r \<in> set (row # rows). survives e allAuthors r}
      = cf_email ` {r \<in> set [row]. survives e allAuthors r} \<union> cf_email ` {r \<in> set rows. survives e allAuthors r}"
    by auto
  then show ?case
    using Cons.IH [OF 2] conflicts_step_keys [OF 1] by (simp add: Un_assoc)
qed

lemma conflicts_step_types:
  assumes "conflicts_step e allAuthors row st = Inr st'"
    and "\<forall>k p l. (p, l) \<in> set (dict_get (fst st) k) \<longrightarrow> snd st k p \<in> set kept_types"
  shows "\<forall>k p l. (p, l) \<in> set (dict_get (fst st') k) \<longrightarrow> snd st' k p \<in> set kept_types"
proof (intro allI impI)
  fix k p l
  assume m: "(p, l) \<in> set (dict_get (fst st') k)"
  from conflicts_step_cases [OF assms(1)] show "snd st' k p \<in> set kept_types"
  proof
    assume "\<not> survives e allAuthors row \<and> st' = st"
    with m assms(2) show ?thesis by blast
  next
    assume s: "survives e allAuthors row \<and> cf_conflicttype row \<in> set kept_types
          \<and> st' = (dict_append (cf_email row) (attached e allAuthors row) (fst st),
                   (snd st)(cf_email row := (snd st (cf_email row))(cf_paper row := cf_conflicttype row)))"
    show ?thesis
    proof (cases "k = cf_email row \<and> p = cf_paper row")
      case True
      with s show ?thesis by simp
    next
      case False
      with m s have "(p, l) \<in> set (dict_get (fst st) k)"
        by (auto simp add: dict_get_append attached_def split: if_splits)
      with assms(2) have "snd st k p \<in> set kept_types" by blast
      with False s show ?thesis by auto
    qed
  qed
qed

lemma read_conflicts_types:
  "read_conflicts e allAuthors rows st = Inr st' \<Longrightarrow>
   \<forall>k p l. (p, l) \<in> set (dict_get (fst st) k) \<longrightarrow> snd st k p \<in> set kept_types \<Longrightarrow>
   \<forall>k p l. (p, l) \<in> set (dict_get (fst st') k) \<longrightarrow> snd st' k p \<in> set kept_types"
proof (induction rows arbitrary: st)
  case Nil
  then show ?case by simp
next
  case (Cons row rows)
  from Cons.prems(1) obtain st1 where 1: "conflicts_step e allAuthors row st = Inr st1"
    and 2: "read_conflicts e allAuthors rows st1 = Inr st'"
    by (auto split: sum.splits)
  show ?case
    using Cons.IH [OF 2 conflicts_step_types [OF 1 Cons.prems(2)]] .
qed

subsection \<open>The loop over the conflicts of one recipient\<close>

lemma keys_shuffle_all: "map fst (shuffle_all e d) = map fst d"
  by (induction d) (auto simp add: shuffle_all_def)

lemma dict_get_shuffle_all:
  "dict_get (shuffle_all e d) k = (case map_of d k of None \<Rightarrow> [] | Some vs \<Rightarrow> shuffle e k vs)"
  by (induction d) (auto simp add: shuffle_all_def dict_get_def)

lemma mset_shuffle_all:
  assumes "\<forall>k xs. mset (shuffle e k xs) = mset xs"
  shows "mset (dict_get (shuffle_all e d) k) = mset (dict_get d k)"
proof -
  have "dict_get d k = (case map_of d k of None \<Rightarrow> [] | Some vs \<Rightarrow> vs)"
    by (simp add: dict_get_def)
  with assms show ?thesis
    by (cases "map_of d k") (simp_all add: dict_get_shuffle_all)
qed

lemma audit_rows_simps [simp]:
  "audit_rows [] = []"
  "audit_rows (Write_row em p u # tr) = (em, p, u) # audit_rows tr"
  "row_of ev = None \<Longrightarrow> audit_rows (ev # tr) = audit_rows tr"
  "audit_rows (tr @ tr') = audit_rows tr @ audit_rows tr'"
  by (simp_all add: audit_rows_def map_filter_def)

lemma deliveries_simps [simp]:
  "deliveries [] = []"
  "delivered ev = Some rm \<Longrightarrow> deliveries (ev # tr) = rm # deliveries tr"
  "delivered ev = None \<Longrightarrow> deliveries (ev # tr) = deliveries tr"
  "deliveries (tr @ tr') = deliveries tr @ deliveries tr'"
  by (simp_all add: deliveries_def map_filter_def)

lemma token_rows_simps [simp]:
  "token_rows e h r n [] = []"
  "token_rows e h r n ((p, l) # c) = (r, p, token (digest e) r h p (gensalt e n)) # token_rows e h r (Suc n) c"
  by (simp_all add: token_rows_def)

lemma conflict_lines_rows:
  "fst (conflict_lines e h ct r n ind c) = map (\<lambda>(em, p, u). Write_row em p u) (token_rows e h r n c)"
  by (induction e h ct r n ind c rule: conflict_lines.induct) (simp_all add: Let_def case_prod_beta)

lemma conflict_lines_count:
  "snd (snd (conflict_lines e h ct r n ind c)) = n + length c"
  by (induction e h ct r n ind c rule: conflict_lines.induct) (simp_all add: Let_def case_prod_beta)

lemma audit_rows_Write [simp]:
  "audit_rows (map (\<lambda>(em, p, u). Write_row em p u) rows) = rows"
  by (induction rows) auto

lemma deliveries_Write [simp]:
  "deliveries (map (\<lambda>(em, p, u). Write_row em p u) rows) = []"
  by (induction rows) auto

lemma token_rows_email: "row \<in> set (token_rows e h r n c) \<Longrightarrow> fst row = r"
  by (auto simp add: token_rows_def)

lemma token_rows_papers: "map (\<lambda>row. fst (snd row)) (token_rows e h r n c) = map fst c"
  by (induction c arbitrary: n) auto

lemma token_rows_uids:
  "map (\<lambda>row. snd (snd row)) (token_rows e h r n c)
     = map (\<lambda>(i, em, p, u). token (digest e) em h p (gensalt e i)) (enumerate n (token_rows e h r n c))"
  by (induction c arbitrary: n) auto

lemma recipient_block_shape:
  assumes "recipient_block e g names d ct n r = (evs, n', err)"
  shows "(form g = None \<and> evs = block_pause g \<and> n' = n \<and> err = Some TypeError)
       \<or> (\<exists>url tail. form g = Some url \<and> n' = n + length (dict_get d r)
            \<and> evs = block_pause g @ map (\<lambda>(em, p, u). Write_row em p u) (token_rows e (secret g) r n (dict_get d r)) @ tail
            \<and> ((reallySendMail g \<and> err = None
                   \<and> tail = [Print_sending r, Sendmail (sender g) r (block_message e g names d ct n r url)])
               \<or> (reallySendMail g \<and> err = Some SMTPException \<and> tail = [Print_sending r])
               \<or> (\<not> reallySendMail g \<and> err = None
                   \<and> tail = [Print_message r (block_message e g names d ct n r url)])))"
proof (cases "form g")
  case None
  with assms show ?thesis
    by (simp add: recipient_block_def block_pause_def)
next
  case (Some url)
  obtain rows body m where cl: "conflict_lines e (secret g) ct r n 1 (dict_get d r) = (rows, body, m)"
    by (cases "conflict_lines e (secret g) ct r n 1 (dict_get d r)") auto
  have rows: "rows = map (\<lambda>(em, p, u). Write_row em p u) (token_rows e (secret g) r n (dict_get d r))"
    using conflict_lines_rows [of e "secret g" ct r n 1 "dict_get d r"] cl by simp
  have m: "m = n + length (dict_get d r)"
    using conflict_lines_count [of e "secret g" ct r n 1 "dict_get d r"] cl by simp
  have msg: "message g names r url body = block_message e g names d ct n r url"
    using cl by (simp add: block_message_def)
  from assms Some cl show ?thesis
    unfolding recipient_block_def block_pause_def
    by (auto simp add: Let_def rows m msg split: if_splits)
qed

lemma row_of_tail [simp]:
  "row_of Sleep = None" "row_of (Print_sending r) = None" "row_of (Sendmail s r m) = None"
  "row_of (Print_message r m) = None"
  by simp_all

lemma length_token_rows [simp]: "length (token_rows e h r n c) = length c"
  by (simp add: token_rows_def)

lemma block_rows:
  assumes "recipient_block e g names d ct n r = (evs, n', err)"
  shows "audit_rows evs = (if form g = None then [] else token_rows e (secret g) r n (dict_get d r))"
    and "n' = n + length (audit_rows evs)"
  using recipient_block_shape [OF assms]
  by (auto simp add: block_pause_def)

lemma block_deliveries:
  assumes "recipient_block e g names d ct n r = (evs, n', err)"
  shows "err = None \<Longrightarrow> map fst (deliveries evs) = [r]"
    and "err \<noteq> None \<Longrightarrow> deliveries evs = []"
  using recipient_block_shape [OF assms]
  by (auto simp add: block_pause_def)

lemma block_transmitted:
  assumes "recipient_block e g names d ct n r = (evs, n', err)" and "\<not> reallySendMail g"
  shows "\<forall>ev \<in> set evs. \<not> transmitted ev"
  using recipient_block_shape [OF assms(1)] assms(2)
  by (auto simp add: block_pause_def)

lemma split_at_last:
  assumes "A @ [z] = xs @ ev # ys" and "\<forall>x \<in> set A. P x = None" and "P ev \<noteq> None"
  shows "xs = A \<and> ev = z \<and> ys = []"
proof (cases ys rule: rev_cases)
  case Nil
  with assms(1) show ?thesis by simp
next
  case (snoc ys' y)
  with assms(1) have "A = xs @ ev # ys'" by simp
  with assms(2,3) show ?thesis by simp
qed

lemma not_in_undelivered:
  assumes "A = xs @ ev # ys" and "\<forall>x \<in> set A. P x = None" and "P ev \<noteq> None"
  shows False
  using assms by simp

lemma block_split:
  assumes "recipient_block e g names d ct n r = (evs, n', err)"
    and "evs = xs @ ev # ys" and "delivered ev = Some (r', m)"
  shows "r' = r \<and> audit_rows xs = token_rows e (secret g) r n (dict_get d r) \<and> ys = []
       \<and> (\<exists>url. form g = Some url \<and> m = block_message e g names d ct n r url)"
proof -
  let ?W = "map (\<lambda>(em, p, u). Write_row em p u) (token_rows e (secret g) r n (dict_get d r))"
  have und: "\<forall>x \<in> set (block_pause g @ ?W). delivered x = None"
    by (auto simp add: block_pause_def)
  have und2: "\<forall>x \<in> set (block_pause g @ ?W @ [Print_sending r]). delivered x = None"
    by (auto simp add: block_pause_def)
  have und3: "\<forall>x \<in> set (block_pause g). delivered x = None"
    by (auto simp add: block_pause_def)
  have ne: "delivered ev \<noteq> None" using assms(3) by simp
  have rows: "audit_rows (block_pause g @ ?W) = token_rows e (secret g) r n (dict_get d r)"
    "audit_rows (block_pause g @ ?W @ [Print_sending r]) = token_rows e (secret g) r n (dict_get d r)"
    by (simp_all add: block_pause_def)
  from recipient_block_shape [OF assms(1)] show ?thesis
  proof (elim disjE exE conjE)
    assume "evs = block_pause g"
    with assms(2) have "block_pause g = xs @ ev # ys" by simp
    from not_in_undelivered [OF this und3 ne] show ?thesis ..
  next
    fix url tail
    assume f: "form g = Some url"
      and evs: "evs = block_pause g @ ?W @ tail"
      and "tail = [Print_sending r, Sendmail (sender g) r (block_message e g names d ct n r url)]"
    then have "(block_pause g @ ?W @ [Print_sending r]) @ [Sendmail (sender g) r (block_message e g names d ct n r url)] = xs @ ev # ys"
      using assms(2) by simp
    from split_at_last [OF this und2 ne] assms(3) f rows(2) show ?thesis
      by auto
  next
    fix url tail
    assume evs: "evs = block_pause g @ ?W @ tail" and "tail = [Print_sending r]"
    then have "block_pause g @ ?W @ [Print_sending r] = xs @ ev # ys"
      using assms(2) by simp
    from not_in_undelivered [OF this und2 ne] show ?thesis ..
  next
    fix url tail
    assume f: "form g = Some url"
      and evs: "evs = block_pause g @ ?W @ tail"
      and "tail = [Print_message r (block_message e g names d ct n r url)]"
    then have "(block_pause g @ ?W) @ [Print_message r (block_message e g names d ct n r url)] = xs @ ev # ys"
      using assms(2) by simp
    from split_at_last [OF this und ne] assms(3) f rows(1) show ?thesis
      by auto
  qed
qed

subsection \<open>The loop over the recipients\<close>

lemma notify_Cons:
  assumes "notify e g names d ct n (r # s) = (tr, res)"
  obtains evs n' err where "recipient_block e g names d ct n r = (evs, n', Some err)"
      and "tr = evs" and "res = Some err"
  | evs n' rest where "recipient_block e g names d ct n r = (evs, n', None)"
      and "notify e g names d ct n' s = (rest, res)" and "tr = evs @ rest"
proof -
  obtain evs n' err where b: "recipient_block e g names d ct n r = (evs, n', err)"
    by (cases "recipient_block e g names d ct n r") auto
  show thesis
  proof (cases err)
    case None
    obtain rest res' where r: "notify e g names d ct n' s = (rest, res')"
      by (cases "notify e g names d ct n' s") auto
    with assms b None have "tr = evs @ rest" and "res = res'" by simp_all
    with that(2) b None r show thesis by simp
  next
    case (Some x)
    with assms b have "tr = evs" and "res = Some x" by simp_all
    with that(1) b Some show thesis by simp
  qed
qed

lemma block_rows_in:
  assumes "recipient_block e g names d ct n r = (evs, n', err)" and "row \<in> set (audit_rows evs)"
  shows "fst row = r \<and> fst (snd row) \<in> fst ` set (dict_get d r)"
proof -
  from assms block_rows(1) [OF assms(1)]
  have m: "row \<in> set (token_rows e (secret g) r n (dict_get d r))"
    by (auto split: if_splits)
  then have "fst (snd row) \<in> set (map (\<lambda>row. fst (snd row)) (token_rows e (secret g) r n (dict_get d r)))"
    by simp
  then have "fst (snd row) \<in> fst ` set (dict_get d r)"
    unfolding token_rows_papers by simp
  with token_rows_email [OF m] show ?thesis by simp
qed

lemma notify_rows_in:
  "notify e g names d ct n s = (tr, res) \<Longrightarrow> row \<in> set (audit_rows tr) \<Longrightarrow>
     fst row \<in> set s \<and> fst (snd row) \<in> fst ` set (dict_get d (fst row))"
proof (induction s arbitrary: n tr)
  case Nil
  then show ?case by simp
next
  case (Cons r s)
  from Cons.prems(1) show ?case
  proof (cases rule: notify_Cons)
    case (1 evs n' err)
    with Cons.prems(2) block_rows_in [OF 1(1), of row] show ?thesis by auto
  next
    case (2 evs n' rest)
    with Cons.prems(2) have "row \<in> set (audit_rows evs) \<or> row \<in> set (audit_rows rest)" by simp
    then show ?thesis
    proof
      assume "row \<in> set (audit_rows evs)"
      with block_rows_in [OF 2(1), of row] show ?thesis by auto
    next
      assume "row \<in> set (audit_rows rest)"
      with Cons.IH [OF 2(2)] show ?thesis by auto
    qed
  qed
qed

lemma notify_deliveries:
  "notify e g names d ct n s = (tr, res) \<Longrightarrow>
     (\<exists>k. map fst (deliveries tr) = take k s) \<and> (res = None \<longrightarrow> map fst (deliveries tr) = s)"
proof (induction s arbitrary: n tr)
  case Nil
  then show ?case by simp
next
  case (Cons r s)
  from Cons.prems(1) show ?case
  proof (cases rule: notify_Cons)
    case (1 evs n' err)
    with block_deliveries(2) [OF 1(1)] have "map fst (deliveries tr) = take 0 (r # s)" by simp
    with 1 show ?thesis by blast
  next
    case (2 evs n' rest)
    from Cons.IH [OF 2(2)] obtain k where k: "map fst (deliveries rest) = take k s"
      and all: "res = None \<longrightarrow> map fst (deliveries rest) = s" by blast
    from block_deliveries(1) [OF 2(1)] have b: "map fst (deliveries evs) = [r]" by simp
    have "map fst (deliveries tr) = take (Suc k) (r # s)"
      using 2(3) b k by simp
    moreover have "res = None \<longrightarrow> map fst (deliveries tr) = r # s"
      using 2(3) b all by simp
    ultimately show ?thesis by blast
  qed
qed

lemma notify_transmitted:
  "notify e g names d ct n s = (tr, res) \<Longrightarrow> \<not> reallySendMail g \<Longrightarrow> \<forall>ev \<in> set tr. \<not> transmitted ev"
proof (induction s arbitrary: n tr)
  case Nil
  then show ?case by simp
next
  case (Cons r s)
  from Cons.prems(1) show ?case
  proof (cases rule: notify_Cons)
    case (1 evs n' err)
    with block_transmitted [OF 1(1) Cons.prems(2)] show ?thesis by simp
  next
    case (2 evs n' rest)
    with block_transmitted [OF 2(1) Cons.prems(2)] Cons.IH [OF 2(2) Cons.prems(2)]
    show ?thesis by auto
  qed
qed

lemma notify_uids:
  "notify e g names d ct n s = (tr, res) \<Longrightarrow>
     map (\<lambda>row. snd (snd row)) (audit_rows tr)
       = map (\<lambda>(i, em, p, u). token (digest e) em (secret g) p (gensalt e i)) (enumerate n (audit_rows tr))"
proof (induction s arbitrary: n tr)
  case Nil
  then show ?case by simp
next
  case (Cons r s)
  have blk: "map (\<lambda>row. snd (snd row)) (audit_rows evs)
       = map (\<lambda>(i, em, p, u). token (digest e) em (secret g) p (gensalt e i)) (enumerate n (audit_rows evs))"
    if "recipient_block e g names d ct n r = (evs, n', err)" for evs n' err
    using block_rows(1) [OF that] token_rows_uids [of e "secret g" r n "dict_get d r"]
    by (cases "form g") simp_all
  from Cons.prems(1) show ?case
  proof (cases rule: notify_Cons)
    case (1 evs n' err)
    with blk [OF 1(1)] show ?thesis by simp
  next
    case (2 evs n' rest)
    from block_rows(2) [OF 2(1)] have n': "n' = n + length (audit_rows evs)" .
    from Cons.IH [OF 2(2)] blk [OF 2(1)] show ?thesis
      by (simp add: 2(3) enumerate_append_eq n')
  qed
qed

lemma filter_token_rows:
  "filter (\<lambda>row. fst row = r') (token_rows e h r n c) = (if r' = r then token_rows e h r n c else [])"
  by (auto simp add: token_rows_def filter_empty_conv intro!: filter_True)

lemma block_filter_rows:
  assumes "recipient_block e g names d ct n r = (evs, n', err)" and "r' \<noteq> r"
  shows "filter (\<lambda>row. fst row = r') (audit_rows evs) = []"
  using block_rows_in [OF assms(1)] assms(2) by (auto simp add: filter_empty_conv)

lemma notify_filter_rows:
  assumes "notify e g names d ct n s = (tr, res)" and "r \<notin> set s"
  shows "filter (\<lambda>row. fst row = r) (audit_rows tr) = []"
  using notify_rows_in [OF assms(1)] assms(2) by (auto simp add: filter_empty_conv)

lemma notify_split:
  "notify e g names d ct n s = (tr, res) \<Longrightarrow> distinct s \<Longrightarrow> tr = before @ ev # after \<Longrightarrow>
   delivered ev = Some (r, m) \<Longrightarrow>
     r \<in> set s
     \<and> (\<exists>k url. form g = Some url \<and> m = block_message e g names d ct k r url
           \<and> filter (\<lambda>row. fst row = r) (audit_rows before) = token_rows e (secret g) r k (dict_get d r))
     \<and> filter (\<lambda>row. fst row = r) (audit_rows after) = []"
proof (induction s arbitrary: n tr before)
  case Nil
  then show ?case by simp
next
  case (Cons r0 s)
  have d: "r0 \<notin> set s" "distinct s" using Cons.prems(2) by simp_all
  from Cons.prems(1) show ?case
  proof (cases rule: notify_Cons)
    case (1 evs n' err)
    with Cons.prems(3) have "evs = before @ ev # after" by simp
    from block_split [OF 1(1) this Cons.prems(4)] show ?thesis
      by (auto simp add: filter_token_rows)
  next
    case (2 evs n' rest)
    with Cons.prems(3) have "evs @ rest = before @ ev # after" by simp
    then consider us where "evs = before @ ev # us" and "after = us @ rest"
      | us where "before = evs @ us" and "rest = us @ ev # after"
      by (auto simp add: append_eq_append_conv2 append_eq_Cons_conv Cons_eq_append_conv)
    then show ?thesis
    proof cases
      case (1 us)
      from block_split [OF 2(1) 1(1) Cons.prems(4)]
      have r: "r = r0" and rows: "audit_rows before = token_rows e (secret g) r0 n (dict_get d r0)"
        and us: "us = []"
        and msg: "\<exists>url. form g = Some url \<and> m = block_message e g names d ct n r0 url"
        by simp_all
      from notify_filter_rows [OF 2(2) d(1)] 1(2) us r
      have "filter (\<lambda>row. fst row = r) (audit_rows after) = []" by simp
      with r rows msg show ?thesis
        by (auto simp add: filter_token_rows)
    next
      case (2 us)
      from Cons.IH [OF \<open>notify e g names d ct n' s = (rest, res)\<close> d(2) 2(2) Cons.prems(4)]
      have rs: "r \<in> set s"
        and ex: "\<exists>k url. form g = Some url \<and> m = block_message e g names d ct k r url
           \<and> filter (\<lambda>row. fst row = r) (audit_rows us) = token_rows e (secret g) r k (dict_get d r)"
        and af: "filter (\<lambda>row. fst row = r) (audit_rows after) = []"
        by simp_all
      from rs d(1) have "r \<noteq> r0" by auto
      from block_filter_rows [OF \<open>recipient_block e g names d ct n r0 = (evs, n', None)\<close> this]
      have "filter (\<lambda>row. fst row = r) (audit_rows before) = filter (\<lambda>row. fst row = r) (audit_rows us)"
        by (simp add: 2(1))
      with rs ex af show ?thesis by simp
    qed
  qed
qed

lemma block_plain:
  assumes "recipient_block e g names d ct n r = (evs, n', err)"
  shows "\<forall>ev \<in> set evs. plain ev"
  using recipient_block_shape [OF assms]
  by (auto simp add: block_pause_def plain_def)

lemma notify_plain:
  "notify e g names d ct n s = (tr, res) \<Longrightarrow> \<forall>ev \<in> set tr. plain ev"
proof (induction s arbitrary: n tr)
  case Nil
  then show ?case by simp
next
  case (Cons r s)
  from Cons.prems(1) show ?case
  proof (cases rule: notify_Cons)
    case (1 evs n' err)
    with block_plain [OF 1(1)] show ?thesis by simp
  next
    case (2 evs n' rest)
    with block_plain [OF 2(1)] Cons.IH [OF 2(2)] show ?thesis by auto
  qed
qed

lemma uidmap_after_plain:
  "\<forall>ev \<in> set tr. plain ev \<Longrightarrow>
     uidmap_after (Some t) tr = Some (t @ concat (map row_text (audit_rows tr)))"
proof (induction tr arbitrary: t)
  case Nil
  then show ?case by simp
next
  case (Cons ev tr)
  then have p: "plain ev" and rest: "\<forall>ev \<in> set tr. plain ev" by simp_all
  from p show ?case
    by (cases ev) (simp_all add: plain_def Cons.IH [OF rest] row_text_def)
qed

subsection \<open>The whole run\<close>

lemma run_L1: "read_args a = Inl err \<Longrightarrow> run e a pcinfo authors pcconflicts = ([], Some err)"
  unfolding run_def by simp

lemma run_L2: "read_args a = Inr g \<Longrightarrow>
  read_conflicts e (load_authors authors) pcconflicts ([], \<lambda>_ _. []) = Inl err \<Longrightarrow>
  run e a pcinfo authors pcconflicts = ([], Some err)"
  unfolding run_def by simp

lemma run_L3: "read_args a = Inr g \<Longrightarrow>
  read_conflicts e (load_authors authors) pcconflicts ([], \<lambda>_ _. []) = Inr (d, ct) \<Longrightarrow>
  reallySendMail g \<Longrightarrow> \<not> smtp_login_ok e \<Longrightarrow>
  run e a pcinfo authors pcconflicts = ([Open_uidmap, Write_header], Some SMTPException)"
  unfolding run_def by simp

lemma run_L4: "read_args a = Inr g \<Longrightarrow>
  read_conflicts e (load_authors authors) pcconflicts ([], \<lambda>_ _. []) = Inr (d, ct) \<Longrightarrow>
  \<not> (reallySendMail g \<and> \<not> smtp_login_ok e) \<Longrightarrow>
  notify e g (load_names pcinfo) (shuffle_all e d) ct 0 (sort (map fst (shuffle_all e d))) = (evs, res) \<Longrightarrow>
  run e a pcinfo authors pcconflicts
    = ([Open_uidmap, Write_header] @ login_events g @ evs @ closing_events g res, res)"
  unfolding run_def login_events_def closing_events_def
  by (cases res) simp_all

lemma run_cases:
  assumes "run e a pcinfo authors pcconflicts = (tr, res)"
  obtains "tr = []" and "res \<noteq> None"
  | g d ct where "read_args a = Inr g"
      and "read_conflicts e (load_authors authors) pcconflicts ([], \<lambda>_ _. []) = Inr (d, ct)"
      and "reallySendMail g" and "tr = [Open_uidmap, Write_header]" and "res = Some SMTPException"
  | g d ct evs where "read_args a = Inr g"
      and "read_conflicts e (load_authors authors) pcconflicts ([], \<lambda>_ _. []) = Inr (d, ct)"
      and "notify e g (load_names pcinfo) (shuffle_all e d) ct 0 (sort (map fst (shuffle_all e d))) = (evs, res)"
      and "tr = [Open_uidmap, Write_header] @ login_events g @ evs @ closing_events g res"
proof (cases "read_args a")
  case (Inl err)
  from assms run_L1 [OF Inl, of e pcinfo authors pcconflicts]
  have "tr = []" and "res \<noteq> None" by auto
  then show thesis by (rule that(1))
next
  case (Inr g)
  show thesis
  proof (cases "read_conflicts e (load_authors authors) pcconflicts ([], \<lambda>_ _. [])")
    case (Inl err)
    from assms run_L2 [OF Inr Inl, of pcinfo]
    have "tr = []" and "res \<noteq> None" by auto
    then show thesis by (rule that(1))
  next
    case rc: (Inr st)
    obtain d ct where st: "st = (d, ct)" by (cases st)
    note rc = rc [unfolded st]
    show thesis
    proof (cases "reallySendMail g \<and> \<not> smtp_login_ok e")
      case True
      then have 1: "reallySendMail g" and 2: "\<not> smtp_login_ok e" by simp_all
      from assms run_L3 [OF Inr rc 1 2, of pcinfo]
      have "tr = [Open_uidmap, Write_header]" and "res = Some SMTPException" by auto
      with Inr rc 1 show thesis by (rule that(2))
    next
      case False
      obtain evs res' where n: "notify e g (load_names pcinfo) (shuffle_all e d) ct 0 (sort (map fst (shuffle_all e d))) = (evs, res')"
        by (cases "notify e g (load_names pcinfo) (shuffle_all e d) ct 0 (sort (map fst (shuffle_all e d)))")
      from assms run_L4 [OF Inr rc False n]
      have r: "res' = res" and t: "tr = [Open_uidmap, Write_header] @ login_events g @ evs @ closing_events g res"
        by auto
      from Inr rc n [unfolded r] t show thesis by (rule that(3))
    qed
  qed
qed

lemma read_args_flag: "read_args a = Inr g \<Longrightarrow> reallySendMail g = truthy (really_send a)"
  by (auto simp add: read_args_def split: if_splits option.splits)

lemma frame_events [simp]:
  "audit_rows (login_events g) = []" "audit_rows (closing_events g res) = []"
  "deliveries (login_events g) = []" "deliveries (closing_events g res) = []"
  by (auto simp add: login_events_def closing_events_def split: option.splits)

lemma read_conflicts_empty_keys:
  assumes "read_conflicts e allAuthors rows ([], \<lambda>_ _. []) = Inr (d, ct)"
  shows "set (map fst d) = cf_email ` {r \<in> set rows. survives e allAuthors r}"
    and "distinct (map fst d)"
  using read_conflicts_keys [OF assms] by simp_all

lemma read_conflicts_empty_get:
  assumes "read_conflicts e allAuthors rows ([], \<lambda>_ _. []) = Inr (d, ct)"
  shows "dict_get d k = map (attached e allAuthors)
           (filter (\<lambda>row. cf_email row = k \<and> survives e allAuthors row) rows)"
  using read_conflicts_get [OF assms, of k] by (simp add: dict_get_def)

lemma read_conflicts_empty_types:
  assumes "read_conflicts e allAuthors rows ([], \<lambda>_ _. []) = Inr (d, ct)"
    and "(p, l) \<in> set (dict_get d k)"
  shows "ct k p \<in> set kept_types"
proof -
  have "\<forall>k p l. (p, l) \<in> set (dict_get (fst ([], \<lambda>_ _. [])) k) \<longrightarrow> snd ([], (\<lambda>_ _. [])::conflict_types) k p \<in> set kept_types"
    by (simp add: dict_get_def)
  from read_conflicts_types [OF assms(1) this] assms(2) show ?thesis by auto
qed

subsection \<open>The example run, evaluated\<close>

lemma demo_read_args: "read_args demo_args = Inr demo_globals"
  by (simp add: read_args_def demo_args_def demo_globals_def truthy_def)

lemma demo_load_authors:
  "load_authors demo_authors ''12'' = [''Bob B <b@univ.edu>'']"
  "load_authors demo_authors ''7'' = [''Carol C <c@inst.org>'']"
  by (simp_all add: load_authors_def demo_authors_def author_value_def)

lemma demo_domains:
  "recipient_domain ''a@gmail.com'' = Inr ''gmail.com''"
  "recipient_domain ''z@univ.edu'' = Inr ''univ.edu''"
  "recipient_domain ''q@inst.org'' = Inr ''inst.org''"
  by (simp_all add: recipient_domain_def)

lemma demo_vet:
  "vet_row demo_env (load_authors demo_authors) row_a12 = Inr (Some (''12'', [''Bob B <b@univ.edu>'']))"
  "vet_row demo_env (load_authors demo_authors) row_z12 = Inr None"
  "vet_row demo_env (load_authors demo_authors) row_a7 = Inr (Some (''7'', [''Carol C <c@inst.org>'']))"
  "vet_row demo_env (load_authors demo_authors) row_q12 = Inr None"
  by (simp_all add: vet_row_def row_a12_def row_z12_def row_a7_def row_q12_def demo_load_authors
      demo_domains demo_env_def kept_types_def webmail_def ad_bob)

lemma demo_fields:
  "cf_email row_a12 = ''a@gmail.com''" "cf_paper row_a12 = ''12''" "cf_conflicttype row_a12 = ''Personal''"
  "cf_email row_a7 = ''a@gmail.com''" "cf_paper row_a7 = ''7''" "cf_conflicttype row_a7 = ''Pinned conflict''"
  by (simp_all add: row_a12_def row_a7_def)

lemma demo_read_conflicts:
  "read_conflicts demo_env (load_authors demo_authors) demo_conflicts ([], \<lambda>_ _. []) = Inr (demo_d, demo_ct)"
  by (simp add: demo_conflicts_def conflicts_step_def demo_vet demo_fields demo_d_def demo_ct_def)

lemma demo_shuffle: "shuffle_all demo_env demo_d
    = [(''a@gmail.com'', [(''7'', [''Carol C <c@inst.org>'']), (''12'', [''Bob B <b@univ.edu>''])])]"
  by (simp add: shuffle_all_def demo_d_def demo_env_def)

lemma demo_tokens:
  "token (digest demo_env) ''a@gmail.com'' ''hellokitty'' ''7'' (gensalt demo_env 0) = ''abcdefghijkl''"
  "token (digest demo_env) ''a@gmail.com'' ''hellokitty'' ''12'' (gensalt demo_env (Suc 0)) = ''abcdefghijkl''"
  by (simp_all add: demo_salts token_def reduced_uid_def hashpw_def str_bytes_def salt_a_def salt_b_def)

lemma demo_ct_values:
  "demo_ct ''a@gmail.com'' ''7'' = ''Pinned conflict''" "demo_ct ''a@gmail.com'' ''12'' = ''Personal''"
  by (simp_all add: demo_ct_def)

lemma demo_notify:
  "notify demo_env demo_globals Map.empty (shuffle_all demo_env demo_d) demo_ct 0 [''a@gmail.com'']
     = ([Write_row ''a@gmail.com'' ''7'' ''abcdefghijkl'',
         Write_row ''a@gmail.com'' ''12'' ''abcdefghijkl'',
         Print_message ''a@gmail.com'' demo_message], None)"
  by (simp add: recipient_block_def demo_shuffle dict_get_def demo_tokens demo_ct_values
      demo_message_def demo_globals_def Let_def numeral_2_eq_2)

lemma demo_run:
  "run demo_env demo_args [] demo_authors demo_conflicts = (demo_trace, None)"
proof -
  have s: "sort (map fst (shuffle_all demo_env demo_d)) = [''a@gmail.com'']"
    by (simp add: demo_shuffle)
  have n: "load_names [] = Map.empty"
    by (simp add: load_names_def)
  have f: "\<not> (reallySendMail demo_globals \<and> \<not> smtp_login_ok demo_env)"
    by (simp add: demo_globals_def)
  have "notify demo_env demo_globals (load_names []) (shuffle_all demo_env demo_d) demo_ct 0
          (sort (map fst (shuffle_all demo_env demo_d)))
        = ([Write_row ''a@gmail.com'' ''7'' ''abcdefghijkl'',
            Write_row ''a@gmail.com'' ''12'' ''abcdefghijkl'',
            Print_message ''a@gmail.com'' demo_message], None)"
    unfolding s n by (rule demo_notify)
  from run_L4 [OF demo_read_args demo_read_conflicts f this] show ?thesis
    by (simp add: login_events_def closing_events_def demo_trace_def demo_globals_def)
qed

lemma delivered_cases:
  "delivered ev = Some (r, m) \<Longrightarrow> \<not> transmitted ev \<Longrightarrow> ev = Print_message r m"
  by (cases ev) simp_all

lemma run_read_conflicts:
  assumes "run e a pcinfo authors pcconflicts = (tr, res)" and "tr \<noteq> []"
  obtains d ct where "read_conflicts e (load_authors authors) pcconflicts ([], \<lambda>_ _. []) = Inr (d, ct)"
  using assms by (cases rule: run_cases) auto

subsection \<open>Dry run (C5)\<close>

text \<open>
  C5. When \<^verbatim>\<open>--really-send\<close> is absent (or empty), no event of the run hands
  anything to the mail channel (no SMTP login, no \<^verbatim>\<open>sendmail\<close>), whatever
  the inputs; every message delivered is printed; and a run that reaches its last line
  has printed one message for each reviewer with a surviving conflict, in sorted order.
  The flag is read once (\<open>read_args\<close>) and never changes.
\<close>

theorem dry_run_never_transmits:
  assumes "run e a pcinfo authors pcconflicts = (tr, res)" and "\<not> truthy (really_send a)"
  shows "(\<forall>ev \<in> set tr. \<not> transmitted ev)
       \<and> (\<forall>ev \<in> set tr. \<forall>r m. delivered ev = Some (r, m) \<longrightarrow> ev = Print_message r m)
       \<and> (\<forall>d ct. read_conflicts e (load_authors authors) pcconflicts ([], \<lambda>_ _. []) = Inr (d, ct)
                   \<and> res = None \<longrightarrow> map fst (deliveries tr) = sort (map fst d))"
proof -
  have 1: "\<forall>ev \<in> set tr. \<not> transmitted ev"
    using assms(1)
  proof (cases rule: run_cases)
    case 1
    then show ?thesis by simp
  next
    case (2 g d ct)
    from read_args_flag [OF 2(1)] 2(3) assms(2) show ?thesis by simp
  next
    case (3 g d ct evs)
    have dry: "\<not> reallySendMail g"
      using read_args_flag [OF 3(1)] assms(2) by simp
    from notify_transmitted [OF 3(3) dry] show ?thesis
      by (auto simp add: 3(4) login_events_def closing_events_def dry split: option.splits)
  qed
  have 3: "\<forall>d ct. read_conflicts e (load_authors authors) pcconflicts ([], \<lambda>_ _. []) = Inr (d, ct)
                   \<and> res = None \<longrightarrow> map fst (deliveries tr) = sort (map fst d)"
    using assms(1)
  proof (cases rule: run_cases)
    case 1
    then show ?thesis by auto
  next
    case (2 g d ct)
    then show ?thesis by auto
  next
    case (3 g d ct evs)
    from notify_deliveries [OF 3(3)] show ?thesis
      by (auto simp add: 3(2,4) keys_shuffle_all)
  qed
  from 1 have "\<forall>ev \<in> set tr. \<forall>r m. delivered ev = Some (r, m) \<longrightarrow> ev = Print_message r m"
    using delivered_cases by blast
  with 1 3 show ?thesis by blast
qed

theorem dry_run_never_transmits_witness:
  "run demo_env demo_args [] demo_authors demo_conflicts = (demo_trace, None)
   \<and> \<not> truthy (really_send demo_args)
   \<and> Print_message ''a@gmail.com'' demo_message \<in> set demo_trace
   \<and> \<not> transmitted (Print_message ''a@gmail.com'' demo_message)
   \<and> read_conflicts demo_env (load_authors demo_authors) demo_conflicts ([], \<lambda>_ _. []) = Inr (demo_d, demo_ct)
   \<and> map fst (deliveries demo_trace) = sort (map fst demo_d)"
proof -
  have dry: "\<not> truthy (really_send demo_args)"
    by (simp add: demo_args_def truthy_def)
  have m: "Print_message ''a@gmail.com'' demo_message \<in> set demo_trace"
    by (simp add: demo_trace_def)
  from dry_run_never_transmits [OF demo_run dry] demo_run dry m demo_read_conflicts
  show ?thesis by blast
qed

subsection \<open>A delivery inside a run\<close>

lemma split_prefix:
  "pre @ xs = before @ ev # after \<Longrightarrow> \<forall>x \<in> set pre. P x = None \<Longrightarrow> P ev \<noteq> None \<Longrightarrow>
     \<exists>b. before = pre @ b \<and> xs = b @ ev # after"
proof (induction pre arbitrary: before)
  case Nil
  then show ?case by simp
next
  case (Cons p pre)
  show ?case
  proof (cases before)
    case Nil
    with Cons.prems show ?thesis by auto
  next
    case (Cons b before')
    with Cons.prems Cons.IH [of before'] show ?thesis by auto
  qed
qed

lemma split_suffix:
  "xs @ post = before @ ev # after \<Longrightarrow> \<forall>x \<in> set post. P x = None \<Longrightarrow> P ev \<noteq> None \<Longrightarrow>
     \<exists>a. after = a @ post \<and> xs = before @ ev # a"
proof (induction post arbitrary: after rule: rev_induct)
  case Nil
  then show ?case by simp
next
  case (snoc p post)
  show ?case
  proof (cases after rule: rev_cases)
    case Nil
    with snoc.prems have "xs @ post @ [p] = before @ [ev]" by simp
    then have "p = ev" by (metis append_assoc last_snoc)
    with snoc.prems(2,3) show ?thesis by simp
  next
    case (snoc after' q)
    with snoc.prems(1) have "(xs @ post) @ [p] = (before @ ev # after') @ [q]" by simp
    then have eq: "xs @ post = before @ ev # after'" and pq: "p = q" by simp_all
    from snoc.prems(2) have "\<forall>x \<in> set post. P x = None" by simp
    from snoc.IH [OF eq this snoc.prems(3)] obtain a where "after' = a @ post" and "xs = before @ ev # a"
      by blast
    with snoc pq show ?thesis by simp
  qed
qed

lemma frame_undelivered:
  "\<forall>x \<in> set ([Open_uidmap, Write_header] @ login_events g). delivered x = None"
  "\<forall>x \<in> set (closing_events g res). delivered x = None"
  by (auto simp add: login_events_def closing_events_def split: option.splits)

lemma frame_rows [simp]:
  "audit_rows ([Open_uidmap, Write_header] @ login_events g) = []"
  by (simp add: login_events_def)

lemma survives_kept: "survives e allAuthors row \<Longrightarrow> cf_conflicttype row \<in> set kept_types"
  using vet_row_Some [of e allAuthors row "attached e allAuthors row"]
  by (simp add: survives_def)

lemma run_keys:
  assumes "read_conflicts e allAuthors rows ([], \<lambda>_ _. []) = Inr (d, ct)"
  shows "distinct (sort (map fst (shuffle_all e d)))"
    and "set (sort (map fst (shuffle_all e d))) = cf_email ` {r \<in> set rows. survives e allAuthors r}"
    and "sorted (sort (map fst (shuffle_all e d)))"
  using read_conflicts_empty_keys [OF assms]
  by (simp_all add: keys_shuffle_all del: set_map)

lemma run_split:
  assumes "run e a pcinfo authors pcconflicts = (tr, res)"
    and "read_conflicts e (load_authors authors) pcconflicts ([], \<lambda>_ _. []) = Inr (d, ct)"
    and "tr = before @ ev # after" and "delivered ev = Some (r, m)"
  shows "\<exists>g k url. read_args a = Inr g \<and> form g = Some url
           \<and> m = block_message e g (load_names pcinfo) (shuffle_all e d) ct k r url
           \<and> filter (\<lambda>row. fst row = r) (audit_rows before)
               = token_rows e (secret g) r k (dict_get (shuffle_all e d) r)
           \<and> filter (\<lambda>row. fst row = r) (audit_rows after) = []"
  using assms(1)
proof (cases rule: run_cases)
  case 1
  with assms(3) show ?thesis by simp
next
  case (2 g d' ct')
  with assms(3) have "ev \<in> set [Open_uidmap, Write_header]"
    by (metis in_set_conv_decomp)
  with assms(4) show ?thesis by auto
next
  case (3 g d' ct' evs)
  with assms(2) have d': "d' = d" "ct' = ct" by simp_all
  have ne: "delivered ev \<noteq> None" using assms(4) by simp
  have "([Open_uidmap, Write_header] @ login_events g) @ (evs @ closing_events g res) = before @ ev # after"
    using 3(4) assms(3) by simp
  from split_prefix [OF this frame_undelivered(1) ne]
  obtain b where b: "before = ([Open_uidmap, Write_header] @ login_events g) @ b"
    and "evs @ closing_events g res = b @ ev # after" by blast
  from split_suffix [OF this(2) frame_undelivered(2) ne]
  obtain a' where a': "after = a' @ closing_events g res" and evs: "evs = b @ ev # a'" by blast
  from notify_split [OF 3(3) run_keys(1) [OF 3(2)] evs assms(4)]
  obtain k url where "form g = Some url"
    and "m = block_message e g (load_names pcinfo) (shuffle_all e d') ct' k r url"
    and "filter (\<lambda>row. fst row = r) (audit_rows b) = token_rows e (secret g) r k (dict_get (shuffle_all e d') r)"
    and "filter (\<lambda>row. fst row = r) (audit_rows a') = []"
    by blast
  with 3(1) d' b a' show ?thesis
    by (auto simp del: append_assoc append_Cons)
qed

lemma rendered_from_survivor:
  assumes "read_conflicts e allAuthors rows ([], \<lambda>_ _. []) = Inr (d, ct)"
    and "\<forall>k xs. mset (shuffle e k xs) = mset xs"
    and "(p, l) \<in> set (dict_get (shuffle_all e d) r)"
  shows "\<exists>cr \<in> set rows. cf_email cr = r \<and> cf_paper cr = p \<and> survives e allAuthors cr
           \<and> cf_conflicttype cr \<in> set kept_types"
    and "ct r p \<in> set kept_types"
proof -
  have "set (dict_get (shuffle_all e d) r) = set (dict_get d r)"
    using mset_shuffle_all [OF assms(2)] by (metis mset_eq_setD)
  with assms(3) have m: "(p, l) \<in> set (dict_get d r)" by simp
  then show "ct r p \<in> set kept_types"
    by (rule read_conflicts_empty_types [OF assms(1)])
  from m obtain cr where "cr \<in> set rows" "cf_email cr = r" "survives e allAuthors cr"
    "attached e allAuthors cr = (p, l)"
    unfolding read_conflicts_empty_get [OF assms(1)] by auto
  then show "\<exists>cr \<in> set rows. cf_email cr = r \<and> cf_paper cr = p \<and> survives e allAuthors cr
           \<and> cf_conflicttype cr \<in> set kept_types"
    using survives_kept [of e allAuthors cr] by (auto simp add: attached_def)
qed

subsection \<open>Conflict types that are not kept (C3)\<close>

lemma conflicts_step_dropped:
  assumes "cf_conflicttype row \<notin> set kept_types"
  shows "conflicts_step e allAuthors row st =
           (case recipient_domain (cf_email row) of Inl err \<Rightarrow> Inl err | Inr rd \<Rightarrow> Inr st)"
  using assms by (simp add: conflicts_step_def vet_row_def split: sum.splits)

text \<open>
  C3. A row whose conflict type is not one of \<^verbatim>\<open>Pinned conflict\<close>,
  \<^verbatim>\<open>Personal\<close>, \<^verbatim>\<open>Other\<close> never survives: the loop body leaves the
  dictionaries as they are, whatever the domains and authors (or the run ends at line 108,
  before any output, when the reviewer address has no \<^verbatim>\<open>@\<close>). Every row of the
  audit file and every conflict rendered in a message stems from a surviving row of a
  kept type, and the type shown on a rendered line is a kept type. The shuffle is assumed
  to return a permutation.
\<close>

theorem dropped_types_never_appear:
  assumes "run e a pcinfo authors pcconflicts = (tr, res)"
    and "\<forall>k xs. mset (shuffle e k xs) = mset xs"
  shows "(\<forall>row st. cf_conflicttype row \<notin> set kept_types \<longrightarrow>
            \<not> survives e (load_authors authors) row
            \<and> conflicts_step e (load_authors authors) row st =
                (case recipient_domain (cf_email row) of Inl err \<Rightarrow> Inl err | Inr rd \<Rightarrow> Inr st))
       \<and> (\<forall>row \<in> set (audit_rows tr). \<exists>cr \<in> set pcconflicts.
            cf_email cr = fst row \<and> cf_paper cr = fst (snd row)
            \<and> survives e (load_authors authors) cr \<and> cf_conflicttype cr \<in> set kept_types)
       \<and> (\<forall>d ct r p l.
            read_conflicts e (load_authors authors) pcconflicts ([], \<lambda>_ _. []) = Inr (d, ct)
            \<and> (p, l) \<in> set (dict_get (shuffle_all e d) r) \<longrightarrow>
              ct r p \<in> set kept_types
              \<and> (\<exists>cr \<in> set pcconflicts. cf_email cr = r \<and> cf_paper cr = p
                    \<and> survives e (load_authors authors) cr \<and> cf_conflicttype cr \<in> set kept_types))"
proof -
  have 1: "\<forall>row st. cf_conflicttype row \<notin> set kept_types \<longrightarrow>
            \<not> survives e (load_authors authors) row
            \<and> conflicts_step e (load_authors authors) row st =
                (case recipient_domain (cf_email row) of Inl err \<Rightarrow> Inl err | Inr rd \<Rightarrow> Inr st)"
    using survives_kept conflicts_step_dropped by blast
  have 2: "\<forall>row \<in> set (audit_rows tr). \<exists>cr \<in> set pcconflicts.
            cf_email cr = fst row \<and> cf_paper cr = fst (snd row)
            \<and> survives e (load_authors authors) cr \<and> cf_conflicttype cr \<in> set kept_types"
    using assms(1)
  proof (cases rule: run_cases)
    case 1
    then show ?thesis by simp
  next
    case (2 g d ct)
    then show ?thesis by simp
  next
    case (3 g d ct evs)
    show ?thesis
    proof
      fix row
      assume "row \<in> set (audit_rows tr)"
      then have "row \<in> set (audit_rows evs)"
        by (simp add: 3(4))
      from notify_rows_in [OF 3(3) this]
      obtain l where "(fst (snd row), l) \<in> set (dict_get (shuffle_all e d) (fst row))"
        by auto
      from rendered_from_survivor(1) [OF 3(2) assms(2) this]
      show "\<exists>cr \<in> set pcconflicts.
            cf_email cr = fst row \<and> cf_paper cr = fst (snd row)
            \<and> survives e (load_authors authors) cr \<and> cf_conflicttype cr \<in> set kept_types" .
    qed
  qed
  have 3: "\<forall>d ct r p l.
            read_conflicts e (load_authors authors) pcconflicts ([], \<lambda>_ _. []) = Inr (d, ct)
            \<and> (p, l) \<in> set (dict_get (shuffle_all e d) r) \<longrightarrow>
              ct r p \<in> set kept_types
              \<and> (\<exists>cr \<in> set pcconflicts. cf_email cr = r \<and> cf_paper cr = p
                    \<and> survives e (load_authors authors) cr \<and> cf_conflicttype cr \<in> set kept_types)"
    using rendered_from_survivor [OF _ assms(2)] by blast
  from 1 2 3 show ?thesis by blast
qed

lemma demo_shuffles: "\<forall>k xs. mset (shuffle demo_env k xs) = mset xs"
  by (simp add: demo_env_def)

lemma demo_rendered:
  "dict_get (shuffle_all demo_env demo_d) ''a@gmail.com''
     = [(''7'', [''Carol C <c@inst.org>'']), (''12'', [''Bob B <b@univ.edu>''])]"
  by (simp add: demo_shuffle dict_get_def)

theorem dropped_types_never_appear_witness:
  "run demo_env demo_args [] demo_authors demo_conflicts = (demo_trace, None)
   \<and> (\<forall>k xs. mset (shuffle demo_env k xs) = mset xs)
   \<and> cf_conflicttype row_q12 \<notin> set kept_types
   \<and> \<not> survives demo_env (load_authors demo_authors) row_q12
   \<and> conflicts_step demo_env (load_authors demo_authors) row_q12 (demo_d, demo_ct) = Inr (demo_d, demo_ct)
   \<and> (''7'', [''Carol C <c@inst.org>'']) \<in> set (dict_get (shuffle_all demo_env demo_d) ''a@gmail.com'')
   \<and> demo_ct ''a@gmail.com'' ''7'' \<in> set kept_types"
proof -
  have t: "cf_conflicttype row_q12 \<notin> set kept_types"
    by (simp add: row_q12_def kept_types_def)
  have dom: "recipient_domain (cf_email row_q12) = Inr ''inst.org''"
    by (simp add: row_q12_def demo_domains)
  have m: "(''7'', [''Carol C <c@inst.org>'']) \<in> set (dict_get (shuffle_all demo_env demo_d) ''a@gmail.com'')"
    by (simp add: demo_rendered)
  note inst = dropped_types_never_appear [OF demo_run demo_shuffles]
  from inst t have "\<not> survives demo_env (load_authors demo_authors) row_q12" by blast
  moreover from inst t have "conflicts_step demo_env (load_authors demo_authors) row_q12 (demo_d, demo_ct)
      = (case recipient_domain (cf_email row_q12) of Inl err \<Rightarrow> Inl err | Inr rd \<Rightarrow> Inr (demo_d, demo_ct))"
    by blast
  then have "conflicts_step demo_env (load_authors demo_authors) row_q12 (demo_d, demo_ct) = Inr (demo_d, demo_ct)"
    by (simp add: dom)
  moreover from inst demo_read_conflicts m have "demo_ct ''a@gmail.com'' ''7'' \<in> set kept_types"
    by blast
  ultimately show ?thesis
    using demo_run demo_shuffles t m by blast
qed

subsection \<open>Counting rows, and a run with a duplicated conflict row\<close>

lemma delivered_no_row: "delivered ev = Some rm \<Longrightarrow> row_of ev = None"
  by (cases ev) simp_all

lemma count_by_paper:
  assumes "map (\<lambda>row. fst (snd row)) rows = map fst c"
  shows "length (filter (\<lambda>row. fst (snd row) = p) rows) = length (filter (\<lambda>x. fst x = p) c)"
proof -
  have "length (filter (\<lambda>row. fst (snd row) = p) rows)
      = length (filter (\<lambda>x. x = p) (map (\<lambda>row. fst (snd row)) rows))"
    by (simp add: filter_map comp_def)
  also have "\<dots> = length (filter (\<lambda>x. x = p) (map fst c))"
    by (simp only: assms)
  also have "\<dots> = length (filter (\<lambda>x. fst x = p) c)"
    by (simp add: filter_map comp_def)
  finally show ?thesis .
qed

lemma dup_vet:
  "vet_row dup_env (load_authors demo_authors) row_a12 = Inr (Some (''12'', [''Bob B <b@univ.edu>'']))"
  "vet_row dup_env (load_authors demo_authors) row_a12b = Inr (Some (''12'', [''Bob B <b@univ.edu>'']))"
  by (simp_all add: vet_row_def row_a12_def row_a12b_def demo_load_authors demo_domains dup_env_def
      kept_types_def webmail_def)

lemma dup_fields:
  "cf_email row_a12b = ''a@gmail.com''" "cf_paper row_a12b = ''12''" "cf_conflicttype row_a12b = ''Other''"
  by (simp_all add: row_a12b_def)

lemma dup_read_conflicts:
  "read_conflicts dup_env (load_authors demo_authors) dup_conflicts ([], \<lambda>_ _. []) = Inr (dup_d, dup_ct)"
  by (simp add: dup_conflicts_def conflicts_step_def dup_vet demo_fields dup_fields dup_d_def dup_ct_def)

lemma dup_shuffle: "shuffle_all dup_env dup_d = dup_d"
  by (simp add: shuffle_all_def dup_d_def dup_env_def)

lemma dup_tokens:
  "token (digest dup_env) ''a@gmail.com'' ''hellokitty'' ''12'' (gensalt dup_env 0) = ''abcdefghijkl''"
  "token (digest dup_env) ''a@gmail.com'' ''hellokitty'' ''12'' (gensalt dup_env (Suc 0)) = ''ABCDEFGHIJKL''"
  by (simp_all add: dup_env_def token_def reduced_uid_def hashpw_def str_bytes_def salt_a_def salt_c_def)

lemma dup_notify:
  "notify dup_env demo_globals Map.empty (shuffle_all dup_env dup_d) dup_ct 0 [''a@gmail.com'']
     = ([Write_row ''a@gmail.com'' ''12'' ''abcdefghijkl'',
         Write_row ''a@gmail.com'' ''12'' ''ABCDEFGHIJKL'',
         Print_message ''a@gmail.com'' dup_message], None)"
  unfolding dup_shuffle
  by (simp add: recipient_block_def dup_d_def dict_get_def dup_tokens dup_ct_def
      dup_message_def demo_globals_def Let_def numeral_2_eq_2)

lemma dup_run:
  "run dup_env demo_args [] demo_authors dup_conflicts = (dup_trace, None)"
proof -
  have s: "sort (map fst (shuffle_all dup_env dup_d)) = [''a@gmail.com'']"
    unfolding dup_shuffle by (simp add: dup_d_def)
  have n: "load_names [] = Map.empty"
    by (simp add: load_names_def)
  have f: "\<not> (reallySendMail demo_globals \<and> \<not> smtp_login_ok dup_env)"
    by (simp add: demo_globals_def)
  have "notify dup_env demo_globals (load_names []) (shuffle_all dup_env dup_d) dup_ct 0
          (sort (map fst (shuffle_all dup_env dup_d)))
        = ([Write_row ''a@gmail.com'' ''12'' ''abcdefghijkl'',
            Write_row ''a@gmail.com'' ''12'' ''ABCDEFGHIJKL'',
            Print_message ''a@gmail.com'' dup_message], None)"
    unfolding s n by (rule dup_notify)
  from run_L4 [OF demo_read_args dup_read_conflicts f this] show ?thesis
    by (simp add: login_events_def closing_events_def dup_trace_def demo_globals_def)
qed

subsection \<open>The audit file (C10)\<close>

lemma uidmap_after_no_open:
  "Open_uidmap \<notin> set xs \<Longrightarrow> uidmap_after (Some t) xs = Some (t @ concat (map written xs))"
proof (induction xs arbitrary: t)
  case Nil
  then show ?case by simp
next
  case (Cons ev xs)
  then have "ev \<noteq> Open_uidmap" and rest: "Open_uidmap \<notin> set xs" by auto
  then show ?case
    by (cases ev) (simp_all add: Cons.IH [OF rest])
qed

lemma frame_plain:
  "\<forall>ev \<in> set (login_events g). plain ev" "\<forall>ev \<in> set (closing_events g res). plain ev"
  by (auto simp add: login_events_def closing_events_def plain_def split: option.splits)

lemma run_shape:
  assumes "run e a pcinfo authors pcconflicts = (tr, res)" and "tr \<noteq> []"
  obtains rest where "tr = Open_uidmap # Write_header # rest" and "\<forall>ev \<in> set rest. plain ev"
  using assms(1)
proof (cases rule: run_cases)
  case 1
  with assms(2) show ?thesis by simp
next
  case (2 g d ct)
  with that [of "[]"] show ?thesis by simp
next
  case (3 g d ct evs)
  from notify_plain [OF 3(3)] frame_plain(1) [of g] frame_plain(2) [of g res]
  have "\<forall>ev \<in> set (login_events g @ evs @ closing_events g res). plain ev" by auto
  with that [of "login_events g @ evs @ closing_events g res"] 3(4) show ?thesis by simp
qed

lemma run_uids:
  assumes "run e a pcinfo authors pcconflicts = (tr, res)" and "read_args a = Inr g"
  shows "map (\<lambda>row. snd (snd row)) (audit_rows tr)
       = map (\<lambda>(i, em, p, u). token (digest e) em (secret g) p (gensalt e i)) (enumerate 0 (audit_rows tr))"
  using assms(1)
proof (cases rule: run_cases)
  case 1
  then show ?thesis by simp
next
  case (2 g' d ct)
  then show ?thesis by simp
next
  case (3 g' d ct evs)
  with assms(2) have "g' = g" by simp
  with notify_uids [OF 3(3)] show ?thesis
    by (simp add: 3(4))
qed

text \<open>
  C10, amended. A run that opens the audit file leaves it with the header line followed by
  one row per token generated in this run, in the order of generation (row number \<open>i\<close>
  holds the token of the \<open>i\<close>-th salt), whatever the file held before: line 139
  opens it with mode \<^verbatim>\<open>"w"\<close>. From the opening on, what has been written stays:
  the content after any part of the run is a prefix of the final content.
\<close>

theorem audit_file_written_afresh:
  assumes "run e a pcinfo authors pcconflicts = (tr, res)" and "tr \<noteq> []"
  shows "uidmap_after old tr
           = Some (''email,paper,uid'' @ nl @ concat (map row_text (audit_rows tr)))
       \<and> (\<forall>g. read_args a = Inr g \<longrightarrow>
             map (\<lambda>row. snd (snd row)) (audit_rows tr)
               = map (\<lambda>(i, em, p, u). token (digest e) em (secret g) p (gensalt e i))
                   (enumerate 0 (audit_rows tr)))
       \<and> (\<forall>tr1 tr2. tr = tr1 @ tr2 \<and> tr1 \<noteq> [] \<longrightarrow>
             (\<exists>t1 rest. uidmap_after old tr1 = Some t1 \<and> uidmap_after old tr = Some (t1 @ rest)))"
proof -
  from assms obtain rest where tr: "tr = Open_uidmap # Write_header # rest"
    and plain: "\<forall>ev \<in> set rest. plain ev"
    by (rule run_shape)
  have 1: "uidmap_after old tr
           = Some (''email,paper,uid'' @ nl @ concat (map row_text (audit_rows tr)))"
    unfolding tr using uidmap_after_plain [OF plain, of "''email,paper,uid'' @ nl"]
    by simp
  have 2: "\<forall>g. read_args a = Inr g \<longrightarrow>
             map (\<lambda>row. snd (snd row)) (audit_rows tr)
               = map (\<lambda>(i, em, p, u). token (digest e) em (secret g) p (gensalt e i))
                   (enumerate 0 (audit_rows tr))"
    using run_uids [OF assms(1)] by blast
  have no: "Open_uidmap \<notin> set (Write_header # rest)"
    using plain by (auto simp add: plain_def)
  have 3: "\<exists>t1 rest'. uidmap_after old tr1 = Some t1 \<and> uidmap_after old tr = Some (t1 @ rest')"
    if "tr = tr1 @ tr2" and "tr1 \<noteq> []" for tr1 tr2
  proof -
    from that tr obtain xs1 where tr1: "tr1 = Open_uidmap # xs1" and xs: "Write_header # rest = xs1 @ tr2"
      by (cases tr1) auto
    from no xs have n1: "Open_uidmap \<notin> set xs1" and n2: "Open_uidmap \<notin> set (xs1 @ tr2)"
      by (metis Un_iff set_append, simp)
    have "uidmap_after old tr1 = Some (concat (map written xs1))"
      unfolding tr1 using uidmap_after_no_open [OF n1, of "[]"] by simp
    moreover have "uidmap_after old tr = Some (concat (map written xs1) @ concat (map written tr2))"
      unfolding tr xs using uidmap_after_no_open [OF n2, of "[]"] by simp
    ultimately show ?thesis by blast
  qed
  from 1 2 3 show ?thesis by blast
qed

theorem audit_file_written_afresh_witness:
  "run demo_env demo_args [] demo_authors demo_conflicts = (demo_trace, None)
   \<and> demo_trace \<noteq> []
   \<and> uidmap_after None demo_trace
       = Some (''email,paper,uid'' @ nl @ concat (map row_text (audit_rows demo_trace)))"
proof -
  have ne: "demo_trace \<noteq> []" by (simp add: demo_trace_def)
  from audit_file_written_afresh [OF demo_run ne, of None] demo_run ne show ?thesis by blast
qed

text \<open>
  C10 as stated fails: a row left in the file by a previous run is gone after the run.
\<close>

theorem previous_rows_lost_counterexample:
  "run demo_env demo_args [] demo_authors demo_conflicts = (demo_trace, None)
   \<and> old_uidmap = ''email,paper,uid'' @ nl @ ''r@x.org,3,QRSTUVWXYZab'' @ nl
   \<and> uidmap_after (Some old_uidmap) demo_trace
       = Some (''email,paper,uid'' @ nl @ ''a@gmail.com,7,abcdefghijkl'' @ nl
               @ ''a@gmail.com,12,abcdefghijkl'' @ nl)"
  by (simp add: demo_run old_uidmap_def demo_trace_def)

subsection \<open>The text of a message\<close>

lemma conflict_lines_text:
  "fst (snd (conflict_lines e h ct r n ind c))
     = concat (map (\<lambda>(i, p, l). conflict_line (ind + i) (token (digest e) r h p (gensalt e (n + i))) (ct r p) l)
         (enumerate 0 c))"
proof (induction e h ct r n ind c rule: conflict_lines.induct)
  case (1 e h ct recipient n ind)
  show ?case by simp
next
  case (2 e h ct recipient n ind paper_id l c)
  then show ?case
    by (simp add: Let_def case_prod_beta enumerate_Suc_eq [of 0] comp_def)
qed

lemma conflict_lines_text_rows:
  "fst (snd (conflict_lines e h ct r n ind c))
     = concat (map (\<lambda>(i, (em, p, u), (p', l)). conflict_line i u (ct r p) l)
         (enumerate ind (zip (token_rows e h r n c) c)))"
  by (induction e h ct r n ind c rule: conflict_lines.induct) (simp_all add: Let_def case_prod_beta)

lemma block_message_text:
  "block_message e g names d ct k r url
     = ''From: '' @ senderName g @ nl @ ''Subject: Conflicts to vet: '' @ greeting names r
       @ nl @ nl @ ''Hi,'' @ nl @ nl @ preamble @ url @ ''.'' @ nl @ nl
       @ concat (map (\<lambda>(i, p, l).
                    str_nat (Suc i) @ ''. (UID = '' @ token (digest e) r (secret g) p (gensalt e (k + i))
                    @ '') - '' @ relabel (ct r p) @ '' : '' @ author_list 0 (length l) l @ nl)
           (enumerate 0 (dict_get d r)))
       @ nl @ nl @ ''Thanks,'' @ nl @ senderFirstName g @ nl"
  by (simp add: block_message_def message_def conflict_lines_text conflict_line_def)

lemma block_message_rows:
  "block_message e g names d ct k r url
     = ''From: '' @ senderName g @ nl @ ''Subject: Conflicts to vet: '' @ greeting names r
       @ nl @ nl @ ''Hi,'' @ nl @ nl @ preamble @ url @ ''.'' @ nl @ nl
       @ concat (map (\<lambda>(i, (em, p, u), (p', l)).
                    str_nat i @ ''. (UID = '' @ u @ '') - '' @ relabel (ct r p) @ '' : ''
                    @ author_list 0 (length l) l @ nl)
           (enumerate 1 (zip (token_rows e (secret g) r k (dict_get d r)) (dict_get d r))))
       @ nl @ nl @ ''Thanks,'' @ nl @ senderFirstName g @ nl"
  by (simp add: block_message_def message_def conflict_lines_text_rows conflict_line_def)

subsection \<open>The recorded types, and rows counted against surviving conflicts\<close>

lemma conflicts_step_ct:
  assumes "conflicts_step e allAuthors row st = Inr st'"
  shows "snd st' k p = (if cf_email row = k \<and> cf_paper row = p \<and> survives e allAuthors row
                        then cf_conflicttype row else snd st k p)"
  using conflicts_step_cases [OF assms] by auto

lemma read_conflicts_ct:
  "read_conflicts e allAuthors rows st = Inr st' \<Longrightarrow>
     snd st' k p =
       (case rev (filter (\<lambda>row. cf_email row = k \<and> cf_paper row = p \<and> survives e allAuthors row) rows) of
          [] \<Rightarrow> snd st k p
        | row # earlier \<Rightarrow> cf_conflicttype row)"
proof (induction rows arbitrary: st)
  case Nil
  then show ?case by simp
next
  case (Cons row rows)
  from Cons.prems obtain st1 where 1: "conflicts_step e allAuthors row st = Inr st1"
    and 2: "read_conflicts e allAuthors rows st1 = Inr st'"
    by (auto split: sum.splits)
  show ?case
    using Cons.IH [OF 2] conflicts_step_ct [OF 1, of k p]
    by (auto split: list.splits)
qed

lemma read_conflicts_empty_ct:
  assumes "read_conflicts e allAuthors rows ([], \<lambda>_ _. []) = Inr (d, ct)"
  shows "ct k p =
       (case rev (filter (\<lambda>row. cf_email row = k \<and> cf_paper row = p \<and> survives e allAuthors row) rows) of
          [] \<Rightarrow> []
        | row # earlier \<Rightarrow> cf_conflicttype row)"
  using read_conflicts_ct [OF assms, of k p] by (auto split: list.splits)


lemma delivery_row_count:
  assumes "run e a pcinfo authors pcconflicts = (tr, res)"
    and "read_conflicts e (load_authors authors) pcconflicts ([], \<lambda>_ _. []) = Inr (d, ct)"
    and "tr = before @ ev # after" and "delivered ev = Some (r, m)"
  shows "length (filter (\<lambda>row. fst row = r \<and> fst (snd row) = p) (audit_rows tr))
           = length (filter (\<lambda>c. fst c = p) (dict_get (shuffle_all e d) r))"
proof -
  from run_split [OF assms]
  obtain g k where b: "filter (\<lambda>row. fst row = r) (audit_rows before)
               = token_rows e (secret (g::globals)) r k (dict_get (shuffle_all e d) r)"
    and af: "filter (\<lambda>row. fst row = r) (audit_rows after) = []"
    by blast
  have ev: "audit_rows (ev # after) = audit_rows after"
    using delivered_no_row [OF assms(4)] by simp
  have "filter (\<lambda>row. fst row = r) (audit_rows tr) = token_rows e (secret g) r k (dict_get (shuffle_all e d) r)"
    unfolding assms(3) by (simp add: ev af b)
  then have "map (\<lambda>row. fst (snd row)) (filter (\<lambda>row. fst row = r) (audit_rows tr))
           = map fst (dict_get (shuffle_all e d) r)"
    by (simp add: token_rows_papers)
  from count_by_paper [OF this, of p] show ?thesis by simp
qed




subsection \<open>The order of strings\<close>

lemma string_le_code_points:
  "(x::string) \<le> y \<longleftrightarrow> map of_char x \<le> (map of_char y :: nat list)"
proof (induction x arbitrary: y)
  case Nil
  show ?case by simp
next
  case (Cons c x)
  show ?case
  proof (cases y)
    case Nil
    then show ?thesis by simp
  next
    case (Cons c' y')
    with Cons.IH [of y'] show ?thesis
      by (simp add: less_char_def)
  qed
qed

lemma sorted_code_points:
  "sorted (xs::string list) \<Longrightarrow> sorted (map (\<lambda>x. map of_char x :: nat list) xs)"
  by (induction xs) (auto simp add: string_le_code_points)

subsection \<open>The run with two reviewers, evaluated\<close>

lemma str_nat_digits: "str_nat (Suc 0) = ''1''" "str_nat (Suc (Suc 0)) = ''2''"
  by code_simp+

lemma wide_load_authors:
  "load_authors wide_authors ''12'' = [''Bob B <b@univ.edu>'']"
  "load_authors wide_authors ''7'' = [''Carol C <c@inst.org>'', ''Dan D <d@inst.org>'']"
  by (simp_all add: load_authors_def wide_authors_def author_value_def)

lemma wide_domains:
  "recipient_domain ''alice@gmail.com'' = Inr ''gmail.com''"
  "recipient_domain ''Bob@gmail.com'' = Inr ''gmail.com''"
  "recipient_domain ''z@inst.org'' = Inr ''inst.org''"
  by (simp_all add: recipient_domain_def)

lemma ad_dan: "author_domain ''Dan D <d@inst.org>'' = Inr ''inst.org''"
  by (simp add: author_domain_def)

lemma wide_vet:
  "vet_row wide_env (load_authors wide_authors) row_al12 = Inr (Some (''12'', [''Bob B <b@univ.edu>'']))"
  "vet_row wide_env (load_authors wide_authors) row_al7
     = Inr (Some (''7'', [''Carol C <c@inst.org>'', ''Dan D <d@inst.org>'']))"
  "vet_row wide_env (load_authors wide_authors) row_z7 = Inr None"
  "vet_row wide_env (load_authors wide_authors) row_B7
     = Inr (Some (''7'', [''Carol C <c@inst.org>'', ''Dan D <d@inst.org>'']))"
  by (simp_all add: vet_row_def row_al12_def row_al7_def row_z7_def row_B7_def wide_load_authors
      wide_domains demo_domains wide_env_def kept_types_def webmail_def ad_carol ad_dan)

lemma wide_fields:
  "cf_email row_al12 = ''alice@gmail.com''" "cf_paper row_al12 = ''12''" "cf_conflicttype row_al12 = ''Personal''"
  "cf_email row_al7 = ''alice@gmail.com''" "cf_paper row_al7 = ''7''" "cf_conflicttype row_al7 = ''Other''"
  "cf_email row_B7 = ''Bob@gmail.com''" "cf_paper row_B7 = ''7''" "cf_conflicttype row_B7 = ''Pinned conflict''"
  by (simp_all add: row_al12_def row_al7_def row_B7_def)

lemma wide_read_conflicts:
  "read_conflicts wide_env (load_authors wide_authors) wide_conflicts ([], \<lambda>_ _. []) = Inr (wide_d, wide_ct)"
  by (simp add: wide_conflicts_def conflicts_step_def wide_vet wide_fields wide_d_def wide_ct_def)

lemma wide_shuffle: "shuffle_all wide_env wide_d
    = [(''alice@gmail.com'', [(''7'', [''Carol C <c@inst.org>'', ''Dan D <d@inst.org>'']),
                              (''12'', [''Bob B <b@univ.edu>''])]),
       (''Bob@gmail.com'', [(''7'', [''Carol C <c@inst.org>'', ''Dan D <d@inst.org>''])])]"
  by (simp add: shuffle_all_def wide_d_def wide_env_def)

lemma wide_sorted_keys:
  "sort (map fst (shuffle_all wide_env wide_d)) = [''Bob@gmail.com'', ''alice@gmail.com'']"
  unfolding wide_shuffle by simp

lemma wide_rendered:
  "dict_get (shuffle_all wide_env wide_d) ''Bob@gmail.com''
     = [(''7'', [''Carol C <c@inst.org>'', ''Dan D <d@inst.org>''])]"
  "dict_get (shuffle_all wide_env wide_d) ''alice@gmail.com''
     = [(''7'', [''Carol C <c@inst.org>'', ''Dan D <d@inst.org>'']), (''12'', [''Bob B <b@univ.edu>''])]"
  unfolding wide_shuffle by (simp_all add: dict_get_def)

lemma wide_tokens:
  "token (digest wide_env) r h p (gensalt wide_env 0) = ''abcdefghijkl''"
  "token (digest wide_env) r h p (gensalt wide_env (Suc 0)) = ''ABCDEFGHIJKL''"
  "token (digest wide_env) r h p (gensalt wide_env (Suc (Suc 0))) = ''0123456789ab''"
  by (simp_all add: wide_env_def token_def reduced_uid_def hashpw_def str_bytes_def
      salt_a_def salt_c_def salt_d_def)

lemma wide_ct_values:
  "wide_ct ''Bob@gmail.com'' ''7'' = ''Pinned conflict''"
  "wide_ct ''alice@gmail.com'' ''7'' = ''Other''"
  "wide_ct ''alice@gmail.com'' ''12'' = ''Personal''"
  by (simp_all add: wide_ct_def)

lemma wide_text_bob:
  "message demo_globals Map.empty ''Bob@gmail.com'' ''https://forms.gle/someform''
     (conflict_line (Suc 0) ''abcdefghijkl'' ''Pinned conflict''
        [''Carol C <c@inst.org>'', ''Dan D <d@inst.org>''])
   = wide_message_bob"
  by (simp add: message_def conflict_line_def greeting_def preamble_def relabel_def str_nat_digits
      demo_globals_def wide_message_bob_def demo_notice_def)

lemma wide_text_alice:
  "message demo_globals Map.empty ''alice@gmail.com'' ''https://forms.gle/someform''
     (conflict_line (Suc 0) ''ABCDEFGHIJKL'' ''Other'' [''Carol C <c@inst.org>'', ''Dan D <d@inst.org>'']
      @ conflict_line (Suc (Suc 0)) ''0123456789ab'' ''Personal'' [''Bob B <b@univ.edu>''])
   = wide_message_alice"
  by (simp add: message_def conflict_line_def greeting_def preamble_def relabel_def str_nat_digits
      demo_globals_def wide_message_alice_def demo_notice_def)

lemma wide_notify:
  "notify wide_env demo_globals Map.empty (shuffle_all wide_env wide_d) wide_ct 0
       [''Bob@gmail.com'', ''alice@gmail.com'']
     = ([Write_row ''Bob@gmail.com'' ''7'' ''abcdefghijkl'',
         Print_message ''Bob@gmail.com'' wide_message_bob,
         Write_row ''alice@gmail.com'' ''7'' ''ABCDEFGHIJKL'',
         Write_row ''alice@gmail.com'' ''12'' ''0123456789ab'',
         Print_message ''alice@gmail.com'' wide_message_alice], None)"
proof -
  have g: "\<not> reallySendMail demo_globals" "form demo_globals = Some ''https://forms.gle/someform''"
    "secret demo_globals = ''hellokitty''"
    by (simp_all add: demo_globals_def)
  have bob: "recipient_block wide_env demo_globals Map.empty (shuffle_all wide_env wide_d) wide_ct 0
        ''Bob@gmail.com''
      = ([Write_row ''Bob@gmail.com'' ''7'' ''abcdefghijkl'',
          Print_message ''Bob@gmail.com'' wide_message_bob], Suc 0, None)"
    by (simp add: recipient_block_def g wide_rendered wide_tokens wide_ct_values wide_text_bob Let_def)
  have alice: "recipient_block wide_env demo_globals Map.empty (shuffle_all wide_env wide_d) wide_ct (Suc 0)
        ''alice@gmail.com''
      = ([Write_row ''alice@gmail.com'' ''7'' ''ABCDEFGHIJKL'',
          Write_row ''alice@gmail.com'' ''12'' ''0123456789ab'',
          Print_message ''alice@gmail.com'' wide_message_alice], Suc (Suc (Suc 0)), None)"
    by (simp add: recipient_block_def g wide_rendered wide_tokens wide_ct_values wide_text_alice Let_def)
  show ?thesis
    by (simp add: bob alice)
qed

lemma wide_run:
  "run wide_env demo_args [] wide_authors wide_conflicts = (wide_trace, None)"
proof -
  have n: "load_names [] = Map.empty"
    by (simp add: load_names_def)
  have f: "\<not> (reallySendMail demo_globals \<and> \<not> smtp_login_ok wide_env)"
    by (simp add: demo_globals_def)
  have "notify wide_env demo_globals (load_names []) (shuffle_all wide_env wide_d) wide_ct 0
          (sort (map fst (shuffle_all wide_env wide_d)))
        = ([Write_row ''Bob@gmail.com'' ''7'' ''abcdefghijkl'',
            Print_message ''Bob@gmail.com'' wide_message_bob,
            Write_row ''alice@gmail.com'' ''7'' ''ABCDEFGHIJKL'',
            Write_row ''alice@gmail.com'' ''12'' ''0123456789ab'',
            Print_message ''alice@gmail.com'' wide_message_alice], None)"
    unfolding wide_sorted_keys n by (rule wide_notify)
  from run_L4 [OF demo_read_args wide_read_conflicts f this] show ?thesis
    by (simp add: login_events_def closing_events_def wide_trace_def demo_globals_def)
qed

lemma wide_shuffles: "\<forall>k xs. mset (shuffle wide_env k xs) = mset xs"
  by (simp add: wide_env_def)

lemma wide_split:
  "wide_trace = [Open_uidmap, Write_header,
                 Write_row ''Bob@gmail.com'' ''7'' ''abcdefghijkl'',
                 Print_message ''Bob@gmail.com'' wide_message_bob,
                 Write_row ''alice@gmail.com'' ''7'' ''ABCDEFGHIJKL'',
                 Write_row ''alice@gmail.com'' ''12'' ''0123456789ab'']
                @ Print_message ''alice@gmail.com'' wide_message_alice # [Close_uidmap]"
  by (simp add: wide_trace_def)

lemma wide_deliveries:
  "deliveries wide_trace
     = [(''Bob@gmail.com'', wide_message_bob), (''alice@gmail.com'', wide_message_alice)]"
  by (simp add: wide_trace_def)

lemma lower_bob:
  "lower ''Bob@gmail.com'' = ''bob@gmail.com''" "lower ''alice@gmail.com'' = ''alice@gmail.com''"
  by code_simp+

subsection \<open>The run and its re-run, evaluated\<close>











subsection \<open>Audit rows and messages (C1)\<close>

text \<open>
  C1, amended. When a message for a reviewer is sent or printed (line 191 or 195), the rows
  of that reviewer written before it (the \<^verbatim>\<open>uidmap.write\<close> calls of line 173; the
  model orders the calls, not the flushes to disk) are, in order, the rows of the conflicts
  rendered in the message, and no row of that reviewer is written after it. The message is
  its head, one numbered line per such row and the closing lines: line number \<open>i\<close> shows
  the token of the \<open>i\<close>-th row, and that row holds the paper of the \<open>i\<close>-th
  rendered conflict. The number of audit rows matching (reviewer, paper) is the number of
  rendered conflicts of that paper: exactly one when the reviewer's surviving conflicts name
  the paper once.
\<close>

theorem audit_row_per_rendered_line:
  assumes "run e a pcinfo authors pcconflicts = (tr, res)"
    and "read_conflicts e (load_authors authors) pcconflicts ([], \<lambda>_ _. []) = Inr (d, ct)"
    and "tr = before @ ev # after" and "delivered ev = Some (r, m)"
  shows "map (\<lambda>row. fst (snd row)) (filter (\<lambda>row. fst row = r) (audit_rows before))
           = map fst (dict_get (shuffle_all e d) r)
       \<and> filter (\<lambda>row. fst row = r) (audit_rows after) = []
       \<and> (\<forall>p. length (filter (\<lambda>row. fst row = r \<and> fst (snd row) = p) (audit_rows tr))
                 = length (filter (\<lambda>c. fst c = p) (dict_get (shuffle_all e d) r)))
       \<and> (\<exists>g k url. read_args a = Inr g \<and> form g = Some url
            \<and> filter (\<lambda>row. fst row = r) (audit_rows before)
                 = token_rows e (secret g) r k (dict_get (shuffle_all e d) r)
            \<and> m = ''From: '' @ senderName g @ nl @ ''Subject: Conflicts to vet: ''
                  @ greeting (load_names pcinfo) r @ nl @ nl @ ''Hi,'' @ nl @ nl
                  @ preamble @ url @ ''.'' @ nl @ nl
                  @ concat (map (\<lambda>(i, (em, p, u), (p', l)).
                               str_nat i @ ''. (UID = '' @ u @ '') - '' @ relabel (ct r p) @ '' : ''
                               @ author_list 0 (length l) l @ nl)
                      (enumerate 1 (zip (filter (\<lambda>row. fst row = r) (audit_rows before))
                                        (dict_get (shuffle_all e d) r))))
                  @ nl @ nl @ ''Thanks,'' @ nl @ senderFirstName g @ nl)"
proof -
  from run_split [OF assms]
  obtain g k url where g: "read_args a = Inr g" "form g = Some url"
    and m: "m = block_message e g (load_names pcinfo) (shuffle_all e d) ct k r url"
    and b: "filter (\<lambda>row. fst row = r) (audit_rows before)
               = token_rows e (secret g) r k (dict_get (shuffle_all e d) r)"
    and af: "filter (\<lambda>row. fst row = r) (audit_rows after) = []"
    by blast
  have 1: "map (\<lambda>row. fst (snd row)) (filter (\<lambda>row. fst row = r) (audit_rows before))
           = map fst (dict_get (shuffle_all e d) r)"
    unfolding b by (rule token_rows_papers)
  have 3: "\<forall>p. length (filter (\<lambda>row. fst row = r \<and> fst (snd row) = p) (audit_rows tr))
                 = length (filter (\<lambda>c. fst c = p) (dict_get (shuffle_all e d) r))"
    using delivery_row_count [OF assms] by blast
  have "m = ''From: '' @ senderName g @ nl @ ''Subject: Conflicts to vet: ''
                  @ greeting (load_names pcinfo) r @ nl @ nl @ ''Hi,'' @ nl @ nl
                  @ preamble @ url @ ''.'' @ nl @ nl
                  @ concat (map (\<lambda>(i, (em, p, u), (p', l)).
                               str_nat i @ ''. (UID = '' @ u @ '') - '' @ relabel (ct r p) @ '' : ''
                               @ author_list 0 (length l) l @ nl)
                      (enumerate 1 (zip (filter (\<lambda>row. fst row = r) (audit_rows before))
                                        (dict_get (shuffle_all e d) r))))
                  @ nl @ nl @ ''Thanks,'' @ nl @ senderFirstName g @ nl"
    unfolding m b by (rule block_message_rows)
  with g b have 4: "\<exists>g k url. read_args a = Inr g \<and> form g = Some url
            \<and> filter (\<lambda>row. fst row = r) (audit_rows before)
                 = token_rows e (secret g) r k (dict_get (shuffle_all e d) r)
            \<and> m = ''From: '' @ senderName g @ nl @ ''Subject: Conflicts to vet: ''
                  @ greeting (load_names pcinfo) r @ nl @ nl @ ''Hi,'' @ nl @ nl
                  @ preamble @ url @ ''.'' @ nl @ nl
                  @ concat (map (\<lambda>(i, (em, p, u), (p', l)).
                               str_nat i @ ''. (UID = '' @ u @ '') - '' @ relabel (ct r p) @ '' : ''
                               @ author_list 0 (length l) l @ nl)
                      (enumerate 1 (zip (filter (\<lambda>row. fst row = r) (audit_rows before))
                                        (dict_get (shuffle_all e d) r))))
                  @ nl @ nl @ ''Thanks,'' @ nl @ senderFirstName g @ nl"
    by blast
  from 1 af 3 4 show ?thesis by blast
qed

theorem audit_row_per_rendered_line_witness:
  "run wide_env demo_args [] wide_authors wide_conflicts = (wide_trace, None)
   \<and> read_conflicts wide_env (load_authors wide_authors) wide_conflicts ([], \<lambda>_ _. [])
       = Inr (wide_d, wide_ct)
   \<and> wide_trace = [Open_uidmap, Write_header,
                    Write_row ''Bob@gmail.com'' ''7'' ''abcdefghijkl'',
                    Print_message ''Bob@gmail.com'' wide_message_bob,
                    Write_row ''alice@gmail.com'' ''7'' ''ABCDEFGHIJKL'',
                    Write_row ''alice@gmail.com'' ''12'' ''0123456789ab'']
                   @ Print_message ''alice@gmail.com'' wide_message_alice # [Close_uidmap]
   \<and> delivered (Print_message ''alice@gmail.com'' wide_message_alice)
       = Some (''alice@gmail.com'', wide_message_alice)
   \<and> filter (\<lambda>row. fst row = ''alice@gmail.com'')
        (audit_rows [Open_uidmap, Write_header,
                     Write_row ''Bob@gmail.com'' ''7'' ''abcdefghijkl'',
                     Print_message ''Bob@gmail.com'' wide_message_bob,
                     Write_row ''alice@gmail.com'' ''7'' ''ABCDEFGHIJKL'',
                     Write_row ''alice@gmail.com'' ''12'' ''0123456789ab''])
       = [(''alice@gmail.com'', ''7'', ''ABCDEFGHIJKL''), (''alice@gmail.com'', ''12'', ''0123456789ab'')]
   \<and> dict_get (shuffle_all wide_env wide_d) ''alice@gmail.com''
       = [(''7'', [''Carol C <c@inst.org>'', ''Dan D <d@inst.org>'']), (''12'', [''Bob B <b@univ.edu>''])]
   \<and> filter (\<lambda>row. fst row = ''alice@gmail.com'') (audit_rows [Close_uidmap]) = []
   \<and> wide_message_alice
       = ''From: '' @ senderName demo_globals @ nl @ ''Subject: Conflicts to vet: ''
         @ greeting (load_names []) ''alice@gmail.com'' @ nl @ nl @ ''Hi,'' @ nl @ nl
         @ preamble @ ''https://forms.gle/someform'' @ ''.'' @ nl @ nl
         @ concat (map (\<lambda>(i, (em, p, u), (p', l)).
                      str_nat i @ ''. (UID = '' @ u @ '') - '' @ relabel (wide_ct ''alice@gmail.com'' p)
                      @ '' : '' @ author_list 0 (length l) l @ nl)
             (enumerate 1
                (zip [(''alice@gmail.com'', ''7'', ''ABCDEFGHIJKL''),
                      (''alice@gmail.com'', ''12'', ''0123456789ab'')]
                     [(''7'', [''Carol C <c@inst.org>'', ''Dan D <d@inst.org>'']),
                      (''12'', [''Bob B <b@univ.edu>''])])))
         @ nl @ nl @ ''Thanks,'' @ nl @ senderFirstName demo_globals @ nl"
proof -
  have dl: "delivered (Print_message ''alice@gmail.com'' wide_message_alice)
       = Some (''alice@gmail.com'', wide_message_alice)"
    by simp
  have rows: "filter (\<lambda>row. fst row = ''alice@gmail.com'')
        (audit_rows [Open_uidmap, Write_header,
                     Write_row ''Bob@gmail.com'' ''7'' ''abcdefghijkl'',
                     Print_message ''Bob@gmail.com'' wide_message_bob,
                     Write_row ''alice@gmail.com'' ''7'' ''ABCDEFGHIJKL'',
                     Write_row ''alice@gmail.com'' ''12'' ''0123456789ab''])
       = [(''alice@gmail.com'', ''7'', ''ABCDEFGHIJKL''), (''alice@gmail.com'', ''12'', ''0123456789ab'')]"
    by simp
  note inst = audit_row_per_rendered_line [OF wide_run wide_read_conflicts wide_split dl]
  from inst have af: "filter (\<lambda>row. fst row = ''alice@gmail.com'') (audit_rows [Close_uidmap]) = []"
    by blast
  from inst obtain g url where g: "read_args demo_args = Inr g" and u: "form g = Some url"
    and m: "wide_message_alice
       = ''From: '' @ senderName g @ nl @ ''Subject: Conflicts to vet: ''
         @ greeting (load_names []) ''alice@gmail.com'' @ nl @ nl @ ''Hi,'' @ nl @ nl
         @ preamble @ url @ ''.'' @ nl @ nl
         @ concat (map (\<lambda>(i, (em, p, u), (p', l)).
                      str_nat i @ ''. (UID = '' @ u @ '') - '' @ relabel (wide_ct ''alice@gmail.com'' p)
                      @ '' : '' @ author_list 0 (length l) l @ nl)
             (enumerate 1
                (zip (filter (\<lambda>row. fst row = ''alice@gmail.com'')
                        (audit_rows [Open_uidmap, Write_header,
                           Write_row ''Bob@gmail.com'' ''7'' ''abcdefghijkl'',
                           Print_message ''Bob@gmail.com'' wide_message_bob,
                           Write_row ''alice@gmail.com'' ''7'' ''ABCDEFGHIJKL'',
                           Write_row ''alice@gmail.com'' ''12'' ''0123456789ab'']))
                     (dict_get (shuffle_all wide_env wide_d) ''alice@gmail.com''))))
         @ nl @ nl @ ''Thanks,'' @ nl @ senderFirstName g @ nl"
    by blast
  from g have gd: "g = demo_globals"
    by (simp add: demo_read_args)
  from u gd have ud: "url = ''https://forms.gle/someform''"
    by (simp add: demo_globals_def)
  note body = m [unfolded rows wide_rendered(2) gd ud]
  from wide_run wide_read_conflicts wide_split dl rows wide_rendered(2) af body
  show ?thesis by blast
qed

text \<open>
  C1 as stated fails: the conflicts export lists the pair (\<^verbatim>\<open>a@gmail.com\<close>,
  \<^verbatim>\<open>12\<close>) twice, both rows survive, and the audit file has two rows matching that
  pair when the message is printed.
\<close>

theorem duplicate_rows_counterexample:
  "run dup_env demo_args [] demo_authors dup_conflicts = (dup_trace, None)
   \<and> dup_trace ! 4 = Print_message ''a@gmail.com'' dup_message
   \<and> audit_rows dup_trace = [(''a@gmail.com'', ''12'', ''abcdefghijkl''), (''a@gmail.com'', ''12'', ''ABCDEFGHIJKL'')]"
  by (simp add: dup_run dup_trace_def)

subsection \<open>Order of recipients and of conflict lines (C8)\<close>

text \<open>
  C8, amended. The recipients of the messages delivered are in ascending order of their
  address strings, and this order is the lexicographic order of the lists of character
  codes (second conjunct): \<^verbatim>\<open>sorted\<close> of line 148 compares code points, so an
  upper-case letter comes before every lower-case letter. (A character of the model has a
  code below 256.) The recipients are without repetition and are reviewers with a surviving
  conflict, all of them when the run reaches its last line. The list rendered for a
  reviewer has the same multiset as the reviewer's surviving conflicts, and a delivered
  message is its head, one numbered line per element of that list, in the order of the
  list, and the closing lines; a line shows the token of the salt drawn for it, the type
  recorded for the pair (that of the last surviving row of the pair, \<^verbatim>\<open>Pinned conflict\<close>
  relabelled) and the authors of the paper. The shuffle is assumed to return a permutation.
\<close>

theorem recipients_in_code_point_order:
  assumes "run e a pcinfo authors pcconflicts = (tr, res)"
    and "read_conflicts e (load_authors authors) pcconflicts ([], \<lambda>_ _. []) = Inr (d, ct)"
    and "\<forall>k xs. mset (shuffle e k xs) = mset xs"
  shows "sorted (map fst (deliveries tr))
       \<and> sorted (map (\<lambda>rm. map of_char (fst rm) :: nat list) (deliveries tr))
       \<and> distinct (map fst (deliveries tr))
       \<and> set (map fst (deliveries tr))
           \<subseteq> cf_email ` {row \<in> set pcconflicts. survives e (load_authors authors) row}
       \<and> (res = None \<longrightarrow> set (map fst (deliveries tr))
           = cf_email ` {row \<in> set pcconflicts. survives e (load_authors authors) row})
       \<and> (\<forall>r. mset (dict_get (shuffle_all e d) r)
              = mset (map (attached e (load_authors authors))
                  (filter (\<lambda>row. cf_email row = r \<and> survives e (load_authors authors) row) pcconflicts)))
       \<and> (\<forall>r p. ct r p =
              (case rev (filter (\<lambda>row. cf_email row = r \<and> cf_paper row = p
                                        \<and> survives e (load_authors authors) row) pcconflicts) of
                 [] \<Rightarrow> []
               | row # earlier \<Rightarrow> cf_conflicttype row))
       \<and> (\<forall>before ev after r m. tr = before @ ev # after \<and> delivered ev = Some (r, m) \<longrightarrow>
             (\<exists>g k url. read_args a = Inr g \<and> form g = Some url
                \<and> m = ''From: '' @ senderName g @ nl @ ''Subject: Conflicts to vet: ''
                      @ greeting (load_names pcinfo) r @ nl @ nl @ ''Hi,'' @ nl @ nl
                      @ preamble @ url @ ''.'' @ nl @ nl
                      @ concat (map (\<lambda>(i, p, l).
                                   str_nat (Suc i) @ ''. (UID = ''
                                   @ token (digest e) r (secret g) p (gensalt e (k + i))
                                   @ '') - '' @ relabel (ct r p) @ '' : ''
                                   @ author_list 0 (length l) l @ nl)
                          (enumerate 0 (dict_get (shuffle_all e d) r)))
                      @ nl @ nl @ ''Thanks,'' @ nl @ senderFirstName g @ nl))"
proof -
  let ?s = "sort (map fst (shuffle_all e d))"
  have kk: "(\<exists>k. map fst (deliveries tr) = take k ?s)
      \<and> (res = None \<longrightarrow> set (map fst (deliveries tr)) = set ?s)"
    using assms(1)
  proof (cases rule: run_cases)
    case 1
    then have "map fst (deliveries tr) = take 0 ?s" by simp
    with 1 show ?thesis by blast
  next
    case (2 g d' ct')
    then have "map fst (deliveries tr) = take 0 ?s" by simp
    with 2 show ?thesis by blast
  next
    case (3 g d' ct' evs)
    with assms(2) have d': "d' = d" by simp
    have "deliveries tr = deliveries evs" by (simp add: 3(4))
    with notify_deliveries [OF 3(3)] d' show ?thesis by auto
  qed
  then obtain k where k: "map fst (deliveries tr) = take k ?s" by blast
  from kk have all: "res = None \<longrightarrow> set (map fst (deliveries tr)) = set ?s" by blast
  note keys = run_keys [OF assms(2)]
  have 1: "sorted (map fst (deliveries tr))"
    unfolding k using keys(3) by (rule sorted_wrt_take)
  have 2: "distinct (map fst (deliveries tr))"
    unfolding k using keys(1) by (rule distinct_take)
  have 3: "set (map fst (deliveries tr))
           \<subseteq> cf_email ` {row \<in> set pcconflicts. survives e (load_authors authors) row}"
    unfolding k keys(2) [symmetric] by (rule set_take_subset)
  have 4: "res = None \<longrightarrow> set (map fst (deliveries tr))
           = cf_email ` {row \<in> set pcconflicts. survives e (load_authors authors) row}"
    using all unfolding keys(2) .
  have 5: "\<forall>r. mset (dict_get (shuffle_all e d) r)
              = mset (map (attached e (load_authors authors))
                  (filter (\<lambda>row. cf_email row = r \<and> survives e (load_authors authors) row) pcconflicts))"
    using mset_shuffle_all [OF assms(3)] read_conflicts_empty_get [OF assms(2)] by simp
  have 6: "\<forall>r p. ct r p =
              (case rev (filter (\<lambda>row. cf_email row = r \<and> cf_paper row = p
                                        \<and> survives e (load_authors authors) row) pcconflicts) of
                 [] \<Rightarrow> []
               | row # earlier \<Rightarrow> cf_conflicttype row)"
    using read_conflicts_empty_ct [OF assms(2)] by blast
  have 7: "\<forall>before ev after r m. tr = before @ ev # after \<and> delivered ev = Some (r, m) \<longrightarrow>
             (\<exists>g k url. read_args a = Inr g \<and> form g = Some url
                \<and> m = ''From: '' @ senderName g @ nl @ ''Subject: Conflicts to vet: ''
                      @ greeting (load_names pcinfo) r @ nl @ nl @ ''Hi,'' @ nl @ nl
                      @ preamble @ url @ ''.'' @ nl @ nl
                      @ concat (map (\<lambda>(i, p, l).
                                   str_nat (Suc i) @ ''. (UID = ''
                                   @ token (digest e) r (secret g) p (gensalt e (k + i))
                                   @ '') - '' @ relabel (ct r p) @ '' : ''
                                   @ author_list 0 (length l) l @ nl)
                          (enumerate 0 (dict_get (shuffle_all e d) r)))
                      @ nl @ nl @ ''Thanks,'' @ nl @ senderFirstName g @ nl)"
    using run_split [OF assms(1,2)] unfolding block_message_text by blast
  have 8: "sorted (map (\<lambda>rm. map of_char (fst rm) :: nat list) (deliveries tr))"
    using sorted_code_points [OF 1] by (simp add: comp_def)
  from 1 8 2 3 4 5 6 7 show ?thesis by blast
qed

theorem recipients_in_code_point_order_witness:
  "run wide_env demo_args [] wide_authors wide_conflicts = (wide_trace, None)
   \<and> read_conflicts wide_env (load_authors wide_authors) wide_conflicts ([], \<lambda>_ _. [])
       = Inr (wide_d, wide_ct)
   \<and> (\<forall>k xs. mset (shuffle wide_env k xs) = mset xs)
   \<and> map fst (deliveries wide_trace) = [''Bob@gmail.com'', ''alice@gmail.com'']
   \<and> sorted [''Bob@gmail.com'', ''alice@gmail.com'']
   \<and> set [''Bob@gmail.com'', ''alice@gmail.com'']
       = cf_email ` {row \<in> set wide_conflicts. survives wide_env (load_authors wide_authors) row}
   \<and> mset [(''7'', [''Carol C <c@inst.org>'', ''Dan D <d@inst.org>'']), (''12'', [''Bob B <b@univ.edu>''])]
       = mset (map (attached wide_env (load_authors wide_authors))
           (filter (\<lambda>row. cf_email row = ''alice@gmail.com''
                           \<and> survives wide_env (load_authors wide_authors) row) wide_conflicts))
   \<and> wide_message_alice
       = ''From: '' @ senderName demo_globals @ nl @ ''Subject: Conflicts to vet: ''
         @ greeting (load_names []) ''alice@gmail.com'' @ nl @ nl @ ''Hi,'' @ nl @ nl
         @ preamble @ ''https://forms.gle/someform'' @ ''.'' @ nl @ nl
         @ concat (map (\<lambda>(i, p, l).
                      str_nat (Suc i) @ ''. (UID = ''
                      @ token (digest wide_env) ''alice@gmail.com'' (secret demo_globals) p
                          (gensalt wide_env (1 + i))
                      @ '') - '' @ relabel (wide_ct ''alice@gmail.com'' p) @ '' : ''
                      @ author_list 0 (length l) l @ nl)
             (enumerate 0 [(''7'', [''Carol C <c@inst.org>'', ''Dan D <d@inst.org>'']),
                           (''12'', [''Bob B <b@univ.edu>''])]))
         @ nl @ nl @ ''Thanks,'' @ nl @ senderFirstName demo_globals @ nl"
proof -
  have dl: "delivered (Print_message ''alice@gmail.com'' wide_message_alice)
       = Some (''alice@gmail.com'', wide_message_alice)"
    by simp
  have ds: "map fst (deliveries wide_trace) = [''Bob@gmail.com'', ''alice@gmail.com'']"
    by (simp add: wide_deliveries)
  note inst = recipients_in_code_point_order [OF wide_run wide_read_conflicts wide_shuffles]
  from inst have s: "sorted [''Bob@gmail.com'', ''alice@gmail.com'']"
    unfolding ds by blast
  from inst have k: "set [''Bob@gmail.com'', ''alice@gmail.com'']
       = cf_email ` {row \<in> set wide_conflicts. survives wide_env (load_authors wide_authors) row}"
    unfolding ds by blast
  from inst have "mset (dict_get (shuffle_all wide_env wide_d) ''alice@gmail.com'')
       = mset (map (attached wide_env (load_authors wide_authors))
           (filter (\<lambda>row. cf_email row = ''alice@gmail.com''
                           \<and> survives wide_env (load_authors wide_authors) row) wide_conflicts))"
    by blast
  then have p: "mset [(''7'', [''Carol C <c@inst.org>'', ''Dan D <d@inst.org>'']), (''12'', [''Bob B <b@univ.edu>''])]
       = mset (map (attached wide_env (load_authors wide_authors))
           (filter (\<lambda>row. cf_email row = ''alice@gmail.com''
                           \<and> survives wide_env (load_authors wide_authors) row) wide_conflicts))"
    unfolding wide_rendered(2) .
  from inst wide_split dl obtain g k url where g: "read_args demo_args = Inr g" and u: "form g = Some url"
    and m: "wide_message_alice
       = ''From: '' @ senderName g @ nl @ ''Subject: Conflicts to vet: ''
         @ greeting (load_names []) ''alice@gmail.com'' @ nl @ nl @ ''Hi,'' @ nl @ nl
         @ preamble @ url @ ''.'' @ nl @ nl
         @ concat (map (\<lambda>(i, p, l).
                      str_nat (Suc i) @ ''. (UID = ''
                      @ token (digest wide_env) ''alice@gmail.com'' (secret g) p (gensalt wide_env (k + i))
                      @ '') - '' @ relabel (wide_ct ''alice@gmail.com'' p) @ '' : ''
                      @ author_list 0 (length l) l @ nl)
             (enumerate 0 (dict_get (shuffle_all wide_env wide_d) ''alice@gmail.com'')))
         @ nl @ nl @ ''Thanks,'' @ nl @ senderFirstName g @ nl"
    by blast
  from g have gd: "g = demo_globals"
    by (simp add: demo_read_args)
  from u gd have ud: "url = ''https://forms.gle/someform''"
    by (simp add: demo_globals_def)
  have tok: "token (digest wide_env) r h q s = take 12 (drop 7 s)" if "19 \<le> length s" for r h q s
    using that by (simp add: token_def reduced_uid_hashpw)
  have "wide_message_alice
       = ''From: '' @ senderName demo_globals @ nl @ ''Subject: Conflicts to vet: ''
         @ greeting (load_names []) ''alice@gmail.com'' @ nl @ nl @ ''Hi,'' @ nl @ nl
         @ preamble @ ''https://forms.gle/someform'' @ ''.'' @ nl @ nl
         @ concat (map (\<lambda>(i, p, l).
                      str_nat (Suc i) @ ''. (UID = ''
                      @ token (digest wide_env) ''alice@gmail.com'' (secret demo_globals) p
                          (gensalt wide_env (1 + i))
                      @ '') - '' @ relabel (wide_ct ''alice@gmail.com'' p) @ '' : ''
                      @ author_list 0 (length l) l @ nl)
             (enumerate 0 [(''7'', [''Carol C <c@inst.org>'', ''Dan D <d@inst.org>'']),
                           (''12'', [''Bob B <b@univ.edu>''])]))
         @ nl @ nl @ ''Thanks,'' @ nl @ senderFirstName demo_globals @ nl"
    by (simp add: wide_message_alice_def demo_notice_def demo_globals_def greeting_def load_names_def
        preamble_def wide_tokens wide_ct_values relabel_def str_nat_digits)
  with wide_run wide_read_conflicts wide_shuffles ds s k p show ?thesis by blast
qed

text \<open>
  C8 as stated fails: \<^verbatim>\<open>Bob@gmail.com\<close> is served before \<^verbatim>\<open>alice@gmail.com\<close>,
  which is not alphabetical order: compared without regard to case, the two addresses are
  in descending order.
\<close>

theorem alphabetical_order_counterexample:
  "run wide_env demo_args [] wide_authors wide_conflicts = (wide_trace, None)
   \<and> map fst (deliveries wide_trace) = [''Bob@gmail.com'', ''alice@gmail.com'']
   \<and> map lower [''Bob@gmail.com'', ''alice@gmail.com''] = [''bob@gmail.com'', ''alice@gmail.com'']
   \<and> \<not> sorted (map lower (map fst (deliveries wide_trace)))"
  by (simp add: wide_run wide_deliveries lower_bob)

subsection \<open>Two tokens for the same input (C7)\<close>




end
